theory Spec2Isabelle
  imports Complex_Main "HOL-Library.Word"
begin

section \<open>Numbers and geometry (src/lib/overlayRenderer.ts, src/types.ts)\<close>

text \<open>
  JavaScript numbers are modelled by their finite values: \<open>real\<close> where the source
  computes with fractions (rectangle coordinates, font sizes, measured widths) and \<open>int\<close>
  where the value is an integer by construction (canvas sizes, resolved rectangles, channel
  sums).  \<open>NaN\<close> and the infinities are not values of the model; where the source tests
  for a missing or \<open>NaN\<close> field, the field is an \<open>option\<close>.
\<close>

definition clamp :: "'a::linorder \<Rightarrow> 'a \<Rightarrow> 'a \<Rightarrow> 'a" where
  "clamp v lo hi = max lo (min hi v)"

record Rect =
  rect_x :: real
  rect_y :: real
  rect_width :: real
  rect_height :: real

record IntRect =
  ir_x :: int
  ir_y :: int
  ir_width :: int
  ir_height :: int

definition toIntRect :: "Rect \<Rightarrow> int \<Rightarrow> int \<Rightarrow> IntRect" where
  "toIntRect rect canvasWidth canvasHeight =
     (let x = clamp \<lfloor>rect_x rect\<rfloor> 0 (max 0 (canvasWidth - 1));
          y = clamp \<lfloor>rect_y rect\<rfloor> 0 (max 0 (canvasHeight - 1));
          right = clamp \<lceil>rect_x rect + rect_width rect\<rceil> 0 canvasWidth;
          bottom = clamp \<lceil>rect_y rect + rect_height rect\<rceil> 0 canvasHeight
      in \<lparr> ir_x = x, ir_y = y,
           ir_width = max 0 (right - x),
           ir_height = max 0 (bottom - y) \<rparr>)"

section \<open>Strings\<close>

text \<open>
  A JavaScript string is modelled as a \<open>string\<close>: each \<open>char\<close> stands for the UTF-16
  code unit of the same number, so texts are taken from the Latin-1 range, where the code
  points iterated by \<open>for ... of\<close> and the code units counted by \<open>length\<close> coincide.
\<close>

definition isWhiteSpace :: "char \<Rightarrow> bool" where
  "isWhiteSpace c \<longleftrightarrow> of_char c \<in> {9::nat, 10, 11, 12, 13, 32, 160}"

definition trim :: "string \<Rightarrow> string" where
  "trim s = rev (dropWhile isWhiteSpace (rev (dropWhile isWhiteSpace s)))"

definition isHexDigit :: "char \<Rightarrow> bool" where
  "isHexDigit c \<longleftrightarrow> c \<in> set ''0123456789abcdefABCDEF''"

definition isDigit :: "char \<Rightarrow> bool" where
  "isDigit c \<longleftrightarrow> c \<in> set ''0123456789''"

definition newline :: char where
  "newline = CHR 0x0A"

text \<open>\<open>text.split("\n")\<close>: the pieces between newline characters, empty pieces kept.\<close>

fun split_nl :: "string \<Rightarrow> string list" where
  "split_nl [] = [[]]"
| "split_nl (c # cs) =
     (if c = newline then [] # split_nl cs
      else (case split_nl cs of [] \<Rightarrow> [[c]] | p # ps \<Rightarrow> (c # p) # ps))"

definition digitChar :: "nat \<Rightarrow> char" where
  "digitChar d = ''0123456789abcdef'' ! d"

text \<open>\<open>Number.prototype.toString(radix)\<close> on a natural number.\<close>

fun natToString :: "nat \<Rightarrow> nat \<Rightarrow> string" where
  "natToString radix n =
     (if radix < 2 \<or> n < radix then [digitChar n]
      else natToString radix (n div radix) @ [digitChar (n mod radix)])"

declare natToString.simps [simp del]

text \<open>
  \<open>String(n)\<close> and \<open>n.toString(radix)\<close> for an integer-valued number (below \<open>10^21\<close>
  in magnitude for radix 10, where JavaScript prints plain digits).
\<close>

definition intToString :: "nat \<Rightarrow> int \<Rightarrow> string" where
  "intToString radix n =
     (if n < 0 then CHR ''-'' # natToString radix (nat (- n)) else natToString radix (nat n))"

definition padStart :: "nat \<Rightarrow> char \<Rightarrow> string \<Rightarrow> string" where
  "padStart targetLength c s = replicate (targetLength - length s) c @ s"

definition digitValue :: "char \<Rightarrow> int" where
  "digitValue c =
     (if isDigit c then int (of_char c) - 48
      else if c \<in> set ''abcdef'' then int (of_char c) - 87
      else int (of_char c) - 55)"

definition digitsValue :: "int \<Rightarrow> string \<Rightarrow> int" where
  "digitsValue radix z = foldl (\<lambda>acc c. acc * radix + digitValue c) 0 z"

text \<open>
  \<open>Number.parseInt(s, 10)\<close>: leading white space is skipped, an optional sign is read,
  then the longest prefix of decimal digits; \<open>None\<close> stands for \<open>NaN\<close>.
\<close>

definition parseInt10 :: "string \<Rightarrow> int option" where
  "parseInt10 s =
     (let s1 = dropWhile isWhiteSpace s;
          neg = (s1 \<noteq> [] \<and> hd s1 = CHR ''-'');
          s2 = (if s1 \<noteq> [] \<and> (hd s1 = CHR ''-'' \<or> hd s1 = CHR ''+'') then tl s1 else s1);
          z = takeWhile isDigit s2
      in if z = [] then None
         else Some ((if neg then - 1 else 1) * digitsValue 10 z))"

text \<open>\<open>Math.round\<close>: the nearest integer, halves upwards.\<close>

definition Math_round :: "real \<Rightarrow> int" where
  "Math_round v = \<lfloor>v + 1 / 2\<rfloor>"

section \<open>Style normalizers\<close>

definition hex6 :: "string \<Rightarrow> bool" where
  "hex6 v \<longleftrightarrow> (case v of [] \<Rightarrow> False
               | c # cs \<Rightarrow> c = CHR ''#'' \<and> length cs = 6 \<and> list_all isHexDigit cs)"

definition hex3 :: "string \<Rightarrow> bool" where
  "hex3 v \<longleftrightarrow> (case v of [] \<Rightarrow> False
               | c # cs \<Rightarrow> c = CHR ''#'' \<and> length cs = 3 \<and> list_all isHexDigit cs)"

definition normalizeHexColor :: "string \<Rightarrow> string \<Rightarrow> string" where
  "normalizeHexColor val fallback =
     (let v = trim val
      in if hex6 v then v
         else if hex3 v then
           (let c = tl v
            in [CHR ''#'', c ! 0, c ! 0, c ! 1, c ! 1, c ! 2, c ! 2])
         else fallback)"

text \<open>
  The argument of \<open>normalizeWeight\<close> is \<open>number | string | undefined\<close>; a number is taken
  to be integer-valued, as the editor stores it.
\<close>

datatype weight_value = WNumber int | WString string | WUndefined

definition weightString :: "weight_value \<Rightarrow> string" where
  "weightString v = (case v of WUndefined \<Rightarrow> ''500'' | WString s \<Rightarrow> s
                     | WNumber n \<Rightarrow> intToString 10 n)"

definition normalizeWeight :: "weight_value \<Rightarrow> int" where
  "normalizeWeight v =
     (case parseInt10 (weightString v) of
        None \<Rightarrow> 500
      | Some parsed \<Rightarrow> clamp (Math_round (real_of_int parsed / 100) * 100) 100 900)"

definition normalizeLineHeight :: "real option \<Rightarrow> real" where
  "normalizeLineHeight v = (case v of None \<Rightarrow> 1.2 | Some x \<Rightarrow> clamp x 0.8 2.4)"

definition normalizeLetterSpacing :: "real option \<Rightarrow> real" where
  "normalizeLetterSpacing v = (case v of None \<Rightarrow> 0 | Some x \<Rightarrow> clamp x (- 2) 12)"

section \<open>The 2D drawing context\<close>

text \<open>
  The renderer draws through a \<open>CanvasRenderingContext2D\<close>.  The model keeps the parts
  of it the renderer touches: the bitmap, the drawing state (fill colour, font, baseline,
  alignment, clip region), the current path and the stack of saved states.  The
  transformation is the identity, \<open>globalAlpha\<close> is 1 and compositing is
  \<open>source-over\<close>, as in a context fresh from \<open>getContext("2d")\<close>, which is what
  every caller passes.
\<close>

record RGBA =
  px_r :: "8 word"
  px_g :: "8 word"
  px_b :: "8 word"
  px_a :: "8 word"

text \<open>
  The CSS font string \<open>`${weight} ${size}px ${family}, sans-serif`\<close> is kept as
  its three components.
\<close>

record Font =
  font_weight :: int
  font_size :: real
  font_family :: string

record DrawState =
  fillStyle :: RGBA
  font :: Font
  textBaseline :: string
  textAlign :: string
  clipRegion :: "int \<times> int \<Rightarrow> bool"

record Context2D = DrawState +
  canvas_width :: int
  canvas_height :: int
  bitmap :: "int \<times> int \<Rightarrow> RGBA"
  path :: "IntRect list"
  stack :: "DrawState list"

text \<open>
  What the host supplies: the advance width of a text run under a font, and the glyph
  rasteriser, which given the drawing state, the run and its anchor maps the bitmap to
  the bitmap with the run painted.  Both are parameters of the model.
\<close>

record Host =
  host_measure :: "Font \<Rightarrow> string \<Rightarrow> real"
  host_raster :: "DrawState \<Rightarrow> string \<Rightarrow> real \<Rightarrow> real \<Rightarrow> (int \<times> int \<Rightarrow> RGBA) \<Rightarrow> (int \<times> int \<Rightarrow> RGBA)"

datatype dom_error = IndexSizeError

record ImageData =
  img_width :: int
  img_height :: int
  img_data :: "8 word list"

definition in_canvas :: "'a Context2D_scheme \<Rightarrow> int \<times> int \<Rightarrow> bool" where
  "in_canvas ctx p \<longleftrightarrow> 0 \<le> fst p \<and> fst p < canvas_width ctx \<and> 0 \<le> snd p \<and> snd p < canvas_height ctx"

definition in_rect :: "IntRect \<Rightarrow> int \<times> int \<Rightarrow> bool" where
  "in_rect r p \<longleftrightarrow> ir_x r \<le> fst p \<and> fst p < ir_x r + ir_width r
                \<and> ir_y r \<le> snd p \<and> snd p < ir_y r + ir_height r"

definition channel :: "RGBA \<Rightarrow> nat \<Rightarrow> 8 word" where
  "channel p c = (if c = 0 then px_r p else if c = 1 then px_g p else if c = 2 then px_b p else px_a p)"

definition transparent_black :: RGBA where
  "transparent_black = \<lparr> px_r = 0, px_g = 0, px_b = 0, px_a = 0 \<rparr>"

text \<open>
  \<open>getImageData(sx, sy, sw, sh)\<close>: the block of pixels as a flat RGBA byte array, row by
  row; pixels outside the canvas read as transparent black; a block without area raises
  \<open>IndexSizeError\<close>.  The renderer never asks for a block of negative size, which
  the model treats like an empty one.
\<close>

definition getImageData :: "'a Context2D_scheme \<Rightarrow> int \<Rightarrow> int \<Rightarrow> int \<Rightarrow> int \<Rightarrow> dom_error + ImageData" where
  "getImageData ctx sx sy sw sh =
     (if sw \<le> 0 \<or> sh \<le> 0 then Inl IndexSizeError
      else Inr \<lparr> img_width = sw, img_height = sh,
                 img_data = map (\<lambda>k. let p = (sx + int ((k div 4) mod nat sw), sy + int ((k div 4) div nat sw))
                                       in channel (if in_canvas ctx p then bitmap ctx p else transparent_black) (k mod 4))
                              [0..<4 * nat sw * nat sh] \<rparr>)"

text \<open>\<open>new ImageData(data, sw, sh)\<close> raises unless \<open>data\<close> holds \<open>4 * sw * sh\<close> bytes.\<close>

definition newImageData :: "8 word list \<Rightarrow> int \<Rightarrow> int \<Rightarrow> dom_error + ImageData" where
  "newImageData d sw sh =
     (if sw \<le> 0 \<or> sh \<le> 0 \<or> int (length d) \<noteq> 4 * sw * sh then Inl IndexSizeError
      else Inr \<lparr> img_width = sw, img_height = sh, img_data = d \<rparr>)"

text \<open>
  \<open>putImageData(img, dx, dy)\<close> copies the block into the bitmap, whatever the clip
  region and the compositing mode; the part outside the canvas is dropped.
\<close>

definition putImageData :: "'a Context2D_scheme \<Rightarrow> ImageData \<Rightarrow> int \<Rightarrow> int \<Rightarrow> 'a Context2D_scheme" where
  "putImageData ctx img dx dy =
     ctx \<lparr> bitmap := (\<lambda>p.
        if in_canvas ctx p \<and> dx \<le> fst p \<and> fst p < dx + img_width img
                           \<and> dy \<le> snd p \<and> snd p < dy + img_height img
        then (let k = 4 * (nat (snd p - dy) * nat (img_width img) + nat (fst p - dx))
              in \<lparr> px_r = img_data img ! k, px_g = img_data img ! (k + 1),
                   px_b = img_data img ! (k + 2), px_a = img_data img ! (k + 3) \<rparr>)
        else bitmap ctx p) \<rparr>"

text \<open>
  The \<open>fillStyle\<close> setter parses a CSS colour and ignores a string that is none.  The
  renderer only ever assigns \<open>#rrggbb\<close> strings (\<open>normalizeHexColor\<close> with a literal
  fallback, or the output of \<open>getAverageNeighborColor\<close>), the one form modelled.
\<close>

definition hexByte :: "char \<Rightarrow> char \<Rightarrow> 8 word" where
  "hexByte hi lo = word_of_int (digitValue hi * 16 + digitValue lo)"

definition parseColor :: "string \<Rightarrow> RGBA option" where
  "parseColor s =
     (if hex6 s then
        Some \<lparr> px_r = hexByte (s ! 1) (s ! 2), px_g = hexByte (s ! 3) (s ! 4),
               px_b = hexByte (s ! 5) (s ! 6), px_a = 255 \<rparr>
      else None)"

definition set_fillStyle :: "'a Context2D_scheme \<Rightarrow> string \<Rightarrow> 'a Context2D_scheme" where
  "set_fillStyle ctx s = (case parseColor s of None \<Rightarrow> ctx | Some c \<Rightarrow> ctx \<lparr> fillStyle := c \<rparr>)"

text \<open>
  \<open>fillRect(x, y, w, h)\<close> with an opaque fill colour replaces the pixels of the rectangle
  that lie on the canvas and inside the clip region.
\<close>

definition fillRect :: "'a Context2D_scheme \<Rightarrow> int \<Rightarrow> int \<Rightarrow> int \<Rightarrow> int \<Rightarrow> 'a Context2D_scheme" where
  "fillRect ctx x y w h =
     ctx \<lparr> bitmap := (\<lambda>p.
        if in_canvas ctx p \<and> clipRegion ctx p
           \<and> in_rect \<lparr> ir_x = min x (x + w), ir_y = min y (y + h), ir_width = \<bar>w\<bar>, ir_height = \<bar>h\<bar> \<rparr> p
        then fillStyle ctx else bitmap ctx p) \<rparr>"

text \<open>
  \<open>fillText(text, x, y)\<close>: whatever the host's rasteriser paints, only pixels on the
  canvas and inside the clip region change.
\<close>

definition fillText :: "Host \<Rightarrow> 'a Context2D_scheme \<Rightarrow> string \<Rightarrow> real \<Rightarrow> real \<Rightarrow> 'a Context2D_scheme" where
  "fillText host ctx text x y =
     ctx \<lparr> bitmap := (\<lambda>p.
        if in_canvas ctx p \<and> clipRegion ctx p
        then host_raster host (DrawState.truncate ctx) text x y (bitmap ctx) p
        else bitmap ctx p) \<rparr>"

definition measureText :: "Host \<Rightarrow> 'a Context2D_scheme \<Rightarrow> string \<Rightarrow> real" where
  "measureText host ctx text = host_measure host (font ctx) text"

definition ctx_save :: "Context2D \<Rightarrow> Context2D" where
  "ctx_save ctx = ctx \<lparr> stack := DrawState.truncate ctx # stack ctx \<rparr>"

definition ctx_restore :: "Context2D \<Rightarrow> Context2D" where
  "ctx_restore ctx =
     (case stack ctx of [] \<Rightarrow> ctx
      | st # rest \<Rightarrow> ctx \<lparr> fillStyle := fillStyle st, font := font st,
                           textBaseline := textBaseline st, textAlign := textAlign st,
                           clipRegion := clipRegion st, stack := rest \<rparr>)"

definition beginPath :: "Context2D \<Rightarrow> Context2D" where
  "beginPath ctx = ctx \<lparr> path := [] \<rparr>"

definition ctx_rect :: "Context2D \<Rightarrow> int \<Rightarrow> int \<Rightarrow> int \<Rightarrow> int \<Rightarrow> Context2D" where
  "ctx_rect ctx x y w h =
     ctx \<lparr> path := path ctx @ [\<lparr> ir_x = min x (x + w), ir_y = min y (y + h), ir_width = \<bar>w\<bar>, ir_height = \<bar>h\<bar> \<rparr>] \<rparr>"

text \<open>\<open>clip()\<close> intersects the clip region with the current path.\<close>

definition ctx_clip :: "Context2D \<Rightarrow> Context2D" where
  "ctx_clip ctx = ctx \<lparr> clipRegion := (\<lambda>p. clipRegion ctx p \<and> list_ex (\<lambda>r. in_rect r p) (path ctx)) \<rparr>"

section \<open>The overlay (src/types.ts)\<close>

datatype VerticalAlign = Top | Middle | Bottom
datatype HorizontalAlign = Left | Center | Right
datatype BackgroundMode = Solid | Clone
datatype CloneDirection = Up | Down | DirLeft | DirRight

text \<open>
  The renderer reads every style field defensively (\<open>overlay.vAlign || "top"\<close>,
  \<open>typeof value !== "number"\<close>), so a field that may be missing is an \<open>option\<close>; a
  string field is missing when empty, the font size when 0.  The fields \<open>id\<close> and
  \<open>originalText\<close>, which the renderer never reads, are left out.
\<close>

record TextOverlay =
  ov_rect :: Rect
  newText :: string
  fontSize :: real
  fontWeight :: weight_value
  fontColor :: string
  fontFamily :: string
  letterSpacing :: "real option"
  lineHeight :: "real option"
  backgroundColor :: string
  backgroundMode :: "BackgroundMode option"
  cloneDirection :: "CloneDirection option"
  vAlign :: "VerticalAlign option"
  hAlign :: "HorizontalAlign option"

section \<open>Measuring and wrapping text\<close>

definition measureLineWidth :: "Host \<Rightarrow> Context2D \<Rightarrow> string \<Rightarrow> real \<Rightarrow> real" where
  "measureLineWidth host ctx text spacing =
     (if text = [] then 0
      else if spacing = 0 then measureText host ctx text
      else fold (\<lambda>i width.
                   let width = width + measureText host ctx [text ! i]
                   in if int i < int (length text) - 1 then width + spacing else width)
                [0..<length text] 0)"

definition wrapStep :: "Host \<Rightarrow> Context2D \<Rightarrow> real \<Rightarrow> real \<Rightarrow> char \<Rightarrow> string list \<times> string \<Rightarrow> string list \<times> string" where
  "wrapStep host ctx maxWidth spacing ch st =
     (let wrapped = fst st; current = snd st;
          candidate = current @ [ch];
          candidateWidth = measureLineWidth host ctx candidate spacing
      in if current \<noteq> [] \<and> candidateWidth > maxWidth then (wrapped @ [current], [ch])
         else (wrapped, candidate))"

definition wrapLineByChars :: "Host \<Rightarrow> Context2D \<Rightarrow> string \<Rightarrow> real \<Rightarrow> real \<Rightarrow> string list" where
  "wrapLineByChars host ctx line maxWidth spacing =
     (if line = [] then [[]]
      else if maxWidth \<le> 1 then [line]
      else (let st = fold (wrapStep host ctx maxWidth spacing) line ([], []);
                wrapped = (if snd st \<noteq> [] then fst st @ [snd st] else fst st)
            in if length wrapped = 0 then wrapped @ [line] else wrapped))"

definition wrapText :: "Host \<Rightarrow> Context2D \<Rightarrow> string \<Rightarrow> real \<Rightarrow> real \<Rightarrow> string list" where
  "wrapText host ctx text maxWidth spacing =
     (let paragraphLines = split_nl text;
          lines = fold (\<lambda>(index, line) lines.
                          let lines = lines @ wrapLineByChars host ctx line maxWidth spacing
                          in if int index < int (length paragraphLines) - 1 \<and> line = []
                             then lines @ [[]] else lines)
                       (zip [0..<length paragraphLines] paragraphLines) []
      in if length lines > 0 then lines else [[]])"

definition drawLineWithSpacing :: "Host \<Rightarrow> Context2D \<Rightarrow> string \<Rightarrow> real \<Rightarrow> real \<Rightarrow> real \<Rightarrow> Context2D" where
  "drawLineWithSpacing host ctx line x y spacing =
     (if line = [] then ctx
      else if spacing = 0 then fillText host ctx line x y
      else fst (fold (\<lambda>i (c, cursorX).
                        let ch = [line ! i];
                            c = fillText host c ch cursorX y;
                            cursorX = cursorX + measureText host c ch
                        in (c, if int i < int (length line) - 1 then cursorX + spacing else cursorX))
                     [0..<length line] (ctx, x)))"

section \<open>Background reconstruction\<close>

definition getCloneOrder :: "CloneDirection option \<Rightarrow> CloneDirection list" where
  "getCloneOrder direction = (case direction of None \<Rightarrow> [Up, Down, DirLeft, DirRight] | Some d \<Rightarrow> [d])"

definition getSourceRect :: "IntRect \<Rightarrow> int \<Rightarrow> int \<Rightarrow> CloneDirection \<Rightarrow> IntRect option" where
  "getSourceRect rect canvasWidth canvasHeight direction =
     (let gap = 2 in
      if direction = Up \<and> ir_y rect - ir_height rect - gap \<ge> 0
      then Some \<lparr> ir_x = ir_x rect, ir_y = ir_y rect - ir_height rect - gap,
                  ir_width = ir_width rect, ir_height = ir_height rect \<rparr>
      else if direction = Down \<and> ir_y rect + ir_height rect + gap + ir_height rect \<le> canvasHeight
      then Some \<lparr> ir_x = ir_x rect, ir_y = ir_y rect + ir_height rect + gap,
                  ir_width = ir_width rect, ir_height = ir_height rect \<rparr>
      else if direction = DirLeft \<and> ir_x rect - ir_width rect - gap \<ge> 0
      then Some \<lparr> ir_x = ir_x rect - ir_width rect - gap, ir_y = ir_y rect,
                  ir_width = ir_width rect, ir_height = ir_height rect \<rparr>
      else if direction = DirRight \<and> ir_x rect + ir_width rect + gap + ir_width rect \<le> canvasWidth
      then Some \<lparr> ir_x = ir_x rect + ir_width rect + gap, ir_y = ir_y rect,
                  ir_width = ir_width rect, ir_height = ir_height rect \<rparr>
      else None)"

definition bind_err :: "'e + 'a \<Rightarrow> ('a \<Rightarrow> 'e + 'b) \<Rightarrow> 'e + 'b" where
  "bind_err m f = (case m of Inl e \<Rightarrow> Inl e | Inr v \<Rightarrow> f v)"

text \<open>
  The loop of \<open>collect\<close> walks the byte array four at a time; the array of an
  \<open>ImageData\<close> always holds whole pixels.
\<close>

fun collect_loop :: "8 word list \<Rightarrow> int \<times> int \<times> int \<times> int \<Rightarrow> int \<times> int \<times> int \<times> int" where
  "collect_loop (r0 # g0 # b0 # a0 # rest) (r, g, b, count) =
     collect_loop rest (r + uint r0, g + uint g0, b + uint b0, count + 1)"
| "collect_loop rest acc = acc"

definition collect :: "Context2D \<Rightarrow> int \<Rightarrow> int \<Rightarrow> int \<Rightarrow> int \<Rightarrow> int \<times> int \<times> int \<times> int
                        \<Rightarrow> dom_error + int \<times> int \<times> int \<times> int" where
  "collect ctx x y w h acc =
     (if w \<le> 0 \<or> h \<le> 0 then Inr acc
      else bind_err (getImageData ctx x y w h) (\<lambda>img. Inr (collect_loop (img_data img) acc)))"

definition toHex :: "real \<Rightarrow> string" where
  "toHex v = padStart 2 CHR ''0'' (intToString 16 (Math_round v))"

definition getAverageNeighborColor :: "Context2D \<Rightarrow> IntRect \<Rightarrow> string \<Rightarrow> dom_error + string" where
  "getAverageNeighborColor ctx rect fallback =
     (let cW = canvas_width ctx; cH = canvas_height ctx in
      bind_err (if ir_x rect > 0 then collect ctx (ir_x rect - 1) (ir_y rect) 1 (ir_height rect) (0, 0, 0, 0)
                else Inr (0, 0, 0, 0)) (\<lambda>acc.
      bind_err (if ir_x rect + ir_width rect < cW
                then collect ctx (ir_x rect + ir_width rect) (ir_y rect) 1 (ir_height rect) acc
                else Inr acc) (\<lambda>acc.
      bind_err (if ir_y rect > 0 then collect ctx (ir_x rect) (ir_y rect - 1) (ir_width rect) 1 acc
                else Inr acc) (\<lambda>acc.
      bind_err (if ir_y rect + ir_height rect < cH
                then collect ctx (ir_x rect) (ir_y rect + ir_height rect) (ir_width rect) 1 acc
                else Inr acc) (\<lambda>(r, g, b, count).
      if count = 0 then Inr fallback
      else Inr (CHR ''#'' # toHex (real_of_int r / real_of_int count)
                  @ toHex (real_of_int g / real_of_int count)
                  @ toHex (real_of_int b / real_of_int count)))))))"

text \<open>
  One channel of the feathered blend.  A read beyond the arrays would give \<open>undefined\<close>,
  hence \<open>NaN\<close>, which a \<open>Uint8ClampedArray\<close> stores as 0; a stored number is clamped
  to a byte.
\<close>

definition blendByte :: "8 word \<Rightarrow> 8 word \<Rightarrow> real \<Rightarrow> 8 word" where
  "blendByte sv tv alpha =
     word_of_int (clamp (Math_round (real_of_int (uint sv) * alpha
                                     + real_of_int (uint tv) * (1 - alpha))) 0 255)"

definition blendChannel :: "8 word list \<Rightarrow> 8 word list \<Rightarrow> nat \<Rightarrow> real \<Rightarrow> 8 word" where
  "blendChannel src tgt idx alpha =
     (if idx < length src \<and> idx < length tgt then blendByte (src ! idx) (tgt ! idx) alpha else 0)"

text \<open>The blend factor of the pixel at local coordinates \<open>(x, y)\<close>.\<close>

definition featherAlpha :: "IntRect \<Rightarrow> nat \<Rightarrow> nat \<Rightarrow> real" where
  "featherAlpha rect x y =
     (let feather = 3;
          distEdge = min (min (int x) (int y))
                         (min (ir_width rect - 1 - int x) (ir_height rect - 1 - int y));
          t = clamp (real_of_int distEdge / feather) 0 1
      in 0.96 + 0.04 * t)"

definition blendPixel :: "8 word list \<Rightarrow> 8 word list \<Rightarrow> IntRect \<Rightarrow> nat \<Rightarrow> nat \<Rightarrow> 8 word list \<Rightarrow> 8 word list" where
  "blendPixel src tgt rect y x out =
     (let idx = (y * nat (ir_width rect) + x) * 4;
          alpha = featherAlpha rect x y
      in out [idx := blendChannel src tgt idx alpha,
              idx + 1 := blendChannel src tgt (idx + 1) alpha,
              idx + 2 := blendChannel src tgt (idx + 2) alpha,
              idx + 3 := 255])"

definition blendLoop :: "8 word list \<Rightarrow> 8 word list \<Rightarrow> IntRect \<Rightarrow> 8 word list \<Rightarrow> 8 word list" where
  "blendLoop src tgt rect out =
     fold (\<lambda>y. fold (\<lambda>x. blendPixel src tgt rect y x) [0..<nat (ir_width rect)])
          [0..<nat (ir_height rect)] out"

definition cloneFrom :: "Context2D \<Rightarrow> IntRect \<Rightarrow> IntRect \<Rightarrow> dom_error + Context2D" where
  "cloneFrom ctx rect source =
     bind_err (getImageData ctx (ir_x source) (ir_y source) (ir_width rect) (ir_height rect)) (\<lambda>sourceData.
     bind_err (getImageData ctx (ir_x rect) (ir_y rect) (ir_width rect) (ir_height rect)) (\<lambda>targetData.
     bind_err (newImageData (blendLoop (img_data sourceData) (img_data targetData) rect (img_data targetData))
                            (ir_width rect) (ir_height rect)) (\<lambda>img.
     Inr (putImageData ctx img (ir_x rect) (ir_y rect)))))"

text \<open>
  The loop over the candidate directions: the first direction with a source rectangle
  clones and returns; \<open>None\<close> when the loop runs out.
\<close>

fun cloneLoop :: "Context2D \<Rightarrow> IntRect \<Rightarrow> CloneDirection list \<Rightarrow> (dom_error + Context2D) option" where
  "cloneLoop ctx rect [] = None"
| "cloneLoop ctx rect (direction # directions) =
     (case getSourceRect rect (canvas_width ctx) (canvas_height ctx) direction of
        None \<Rightarrow> cloneLoop ctx rect directions
      | Some source \<Rightarrow> Some (cloneFrom ctx rect source))"

definition applyBackground :: "Context2D \<Rightarrow> TextOverlay \<Rightarrow> IntRect \<Rightarrow> dom_error + Context2D" where
  "applyBackground ctx overlay rect =
     (let mode = (case backgroundMode overlay of None \<Rightarrow> Solid | Some m \<Rightarrow> m);
          fallbackColor = normalizeHexColor
             (if backgroundColor overlay = [] then ''#ffffff'' else backgroundColor overlay) ''#ffffff''
      in if mode = Solid
         then Inr (fillRect (set_fillStyle ctx fallbackColor)
                     (ir_x rect) (ir_y rect) (ir_width rect) (ir_height rect))
         else (case cloneLoop ctx rect (getCloneOrder (cloneDirection overlay)) of
                 Some res \<Rightarrow> res
               | None \<Rightarrow>
                   bind_err (getAverageNeighborColor ctx rect fallbackColor) (\<lambda>sampled.
                   Inr (fillRect (set_fillStyle ctx sampled)
                          (ir_x rect) (ir_y rect) (ir_width rect) (ir_height rect)))))"

section \<open>Fitting and painting the text\<close>

definition minFontSize :: real where
  "minFontSize = 6"

definition setFont :: "Context2D \<Rightarrow> int \<Rightarrow> real \<Rightarrow> string \<Rightarrow> Context2D" where
  "setFont ctx weight fsize family =
     ctx \<lparr> font := \<lparr> font_weight = weight, font_size = fsize, font_family = family \<rparr> \<rparr>"

text \<open>
  The autofit loop of \<open>drawText\<close>.  Its state is the context (whose font each round
  sets), the font size, the wrapped lines and the line height in pixels.
\<close>

function fitLoop :: "Host \<Rightarrow> string \<Rightarrow> IntRect \<Rightarrow> int \<Rightarrow> string \<Rightarrow> real \<Rightarrow> real
                      \<Rightarrow> Context2D \<times> real \<times> string list \<times> real
                      \<Rightarrow> Context2D \<times> real \<times> string list \<times> real" where
  "fitLoop host text rect weight family spacing lineHeightMul (ctx, fsize, lines, lineHeightPx) =
     (if fsize \<ge> minFontSize then
        (let ctx1 = setFont ctx weight fsize family;
             lines1 = wrapText host ctx1 text (real_of_int (ir_width rect)) spacing;
             lineHeightPx1 = fsize * lineHeightMul;
             totalHeight = real (length lines1) * lineHeightPx1;
             maxWidth = fold (\<lambda>line mx. max mx (measureLineWidth host ctx1 line spacing)) lines1 0
         in if totalHeight \<le> real_of_int (ir_height rect) \<and> maxWidth \<le> real_of_int (ir_width rect)
            then (ctx1, fsize, lines1, lineHeightPx1)
            else fitLoop host text rect weight family spacing lineHeightMul
                   (ctx1, fsize - 0.5, lines1, lineHeightPx1))
      else (ctx, fsize, lines, lineHeightPx))"
  by pat_completeness auto
termination
proof (relation "measure (\<lambda>(host, text, rect, weight, family, spacing, lineHeightMul, ctx, fsize, lines, lineHeightPx).
                   nat \<lfloor>2 * fsize\<rfloor>)")
  show "wf (measure (\<lambda>(host, text, rect, weight, family, spacing, lineHeightMul, ctx, fsize, lines, lineHeightPx).
                   nat \<lfloor>2 * fsize\<rfloor>))"
    by simp
next
  fix fsize :: real
  assume "minFontSize \<le> fsize"
  then have "1 \<le> 2 * fsize"
    by (simp add: minFontSize_def)
  then have "0 < \<lfloor>2 * fsize\<rfloor>"
    by simp
  moreover have "\<lfloor>2 * (fsize - 0.5)\<rfloor> = \<lfloor>2 * fsize\<rfloor> - 1"
    by (simp add: algebra_simps)
  ultimately show "\<And>host text rect weight family spacing lineHeightMul ctx lines lineHeightPx x xa xb xc xd.
       ((host, text, rect, weight, family, spacing, lineHeightMul, x, fsize - 0.5, xa, xb),
        (host, text, rect, weight, family, spacing, lineHeightMul, ctx, fsize, lines, lineHeightPx))
       \<in> measure (\<lambda>(host, text, rect, weight, family, spacing, lineHeightMul, ctx, fsize, lines, lineHeightPx).
                   nat \<lfloor>2 * fsize\<rfloor>)"
    by simp
qed

declare fitLoop.simps [simp del]

definition drawLines :: "Host \<Rightarrow> Context2D \<Rightarrow> IntRect \<Rightarrow> HorizontalAlign \<Rightarrow> real \<Rightarrow> real \<Rightarrow> real
                        \<Rightarrow> string list \<Rightarrow> Context2D" where
  "drawLines host ctx rect hAl spacing startY lineHeightPx lines =
     fold (\<lambda>(index, line) c.
             let lineWidth = measureLineWidth host c line spacing;
                 startX = (if hAl = Center
                           then real_of_int (ir_x rect) + (real_of_int (ir_width rect) - lineWidth) / 2
                           else if hAl = Right
                           then real_of_int (ir_x rect) + real_of_int (ir_width rect) - lineWidth
                           else real_of_int (ir_x rect))
             in drawLineWithSpacing host c line startX (startY + real index * lineHeightPx) spacing)
          (zip [0..<length lines] lines) ctx"

definition drawText :: "Host \<Rightarrow> Context2D \<Rightarrow> TextOverlay \<Rightarrow> IntRect \<Rightarrow> Context2D" where
  "drawText host ctx overlay rect =
     (let family = (if fontFamily overlay = [] then ''sans-serif'' else fontFamily overlay);
          weight = normalizeWeight (fontWeight overlay);
          baseFontSize = clamp (if fontSize overlay = 0 then 16 else fontSize overlay) 6 400;
          spacing = normalizeLetterSpacing (letterSpacing overlay);
          lineHeightMul = normalizeLineHeight (lineHeight overlay);
          hAl = (case hAlign overlay of None \<Rightarrow> Left | Some a \<Rightarrow> a);
          vAl = (case vAlign overlay of None \<Rightarrow> Top | Some a \<Rightarrow> a);
          fit = fitLoop host (newText overlay) rect weight family spacing lineHeightMul
                  (ctx, baseFontSize, [], 0);
          ctx = fst fit; fsize = fst (snd fit); lines = fst (snd (snd fit));
          ctx = setFont ctx weight fsize family;
          ctx = set_fillStyle ctx
                  (normalizeHexColor (if fontColor overlay = [] then ''#000000'' else fontColor overlay)
                     ''#000000'');
          ctx = ctx \<lparr> textBaseline := ''top'' \<rparr>;
          ctx = ctx \<lparr> textAlign := ''left'' \<rparr>;
          lineHeightPx = fsize * lineHeightMul;
          totalTextHeight = real (length lines) * lineHeightPx;
          startY = (if vAl = Middle
                    then real_of_int (ir_y rect) + (real_of_int (ir_height rect) - totalTextHeight) / 2
                    else if vAl = Bottom
                    then real_of_int (ir_y rect) + real_of_int (ir_height rect) - totalTextHeight
                    else real_of_int (ir_y rect));
          startY = max (real_of_int (ir_y rect)) startY;
          ctx = ctx_save ctx;
          ctx = beginPath ctx;
          ctx = ctx_rect ctx (ir_x rect) (ir_y rect) (ir_width rect) (ir_height rect);
          ctx = ctx_clip ctx;
          ctx = drawLines host ctx rect hAl spacing startY lineHeightPx lines
      in ctx_restore ctx)"

definition renderTextOverlay :: "Host \<Rightarrow> Context2D \<Rightarrow> TextOverlay \<Rightarrow> dom_error + Context2D" where
  "renderTextOverlay host ctx overlay =
     (let rect = toIntRect (ov_rect overlay) (canvas_width ctx) (canvas_height ctx)
      in if ir_width rect \<le> 0 \<or> ir_height rect \<le> 0 then Inr ctx
         else bind_err (applyBackground ctx overlay rect) (\<lambda>ctx. Inr (drawText host ctx overlay rect)))"

section \<open>Example hosts, canvases and overlays\<close>

text \<open>
  A monospaced host: every character advances by the font size, and the rasteriser
  floods the whole bitmap with the fill colour, the most a rasteriser can paint.
\<close>

definition emHost :: Host where
  "emHost = \<lparr> host_measure = (\<lambda>f t. font_size f * real (length t)),
              host_raster = (\<lambda>st t x y bm p. fillStyle st) \<rparr>"

text \<open>A host with a kerning pair: \<open>AV\<close> is narrower than \<open>A\<close> and \<open>V\<close> apart.\<close>

definition kernHost :: Host where
  "kernHost = \<lparr> host_measure = (\<lambda>f t. if t = ''AV'' then 10 else 6 * real (length t)),
                host_raster = (\<lambda>st t x y bm. bm) \<rparr>"

text \<open>
  A host whose rasteriser writes twice the font size it is given into the red channel
  of the pixel at the anchor.
\<close>

definition probeHost :: Host where
  "probeHost = \<lparr> host_measure = (\<lambda>f t. font_size f * real (length t)),
                 host_raster = (\<lambda>st t x y bm p.
                    if p = (\<lfloor>x\<rfloor>, \<lfloor>y\<rfloor>)
                    then \<lparr> px_r = word_of_int \<lfloor>2 * font_size (font st)\<rfloor>, px_g = 0, px_b = 0, px_a = 255 \<rparr>
                    else bm p) \<rparr>"

text \<open>
  A fresh context on a \<open>w\<close> by \<open>h\<close> canvas whose pixel \<open>(i, j)\<close> is
  \<open>(i, j, 7, 255)\<close>.
\<close>

definition gradientCanvas :: "int \<Rightarrow> int \<Rightarrow> Context2D" where
  "gradientCanvas w h =
     \<lparr> fillStyle = \<lparr> px_r = 0, px_g = 0, px_b = 0, px_a = 255 \<rparr>,
       font = \<lparr> font_weight = 400, font_size = 10, font_family = ''sans-serif'' \<rparr>,
       textBaseline = ''alphabetic'', textAlign = ''start'', clipRegion = (\<lambda>p. True),
       canvas_width = w, canvas_height = h,
       bitmap = (\<lambda>p. \<lparr> px_r = word_of_int (fst p), px_g = word_of_int (snd p), px_b = 7, px_a = 255 \<rparr>),
       path = [], stack = [] \<rparr>"

definition sampleOverlay :: "Rect \<Rightarrow> string \<Rightarrow> real \<Rightarrow> TextOverlay" where
  "sampleOverlay r t fs =
     \<lparr> ov_rect = r, newText = t, fontSize = fs, fontWeight = WNumber 500,
       fontColor = ''#102030'', fontFamily = ''Arial'', letterSpacing = Some 0,
       lineHeight = Some 1, backgroundColor = ''#ffffff'', backgroundMode = Some Solid,
       cloneDirection = None, vAlign = Some Top, hAlign = Some Left \<rparr>"

section \<open>Notions used in the statements\<close>

text \<open>
  \<open>paintedWithinClip c c'\<close>: the context \<open>c'\<close> is \<open>c\<close> with another bitmap that agrees
  with the bitmap of \<open>c\<close> outside the clip region of \<open>c\<close>.
\<close>

definition paintedWithinClip :: "Context2D \<Rightarrow> Context2D \<Rightarrow> bool" where
  "paintedWithinClip c c' \<longleftrightarrow>
     (\<exists>bm. c' = c \<lparr> bitmap := bm \<rparr> \<and> (\<forall>p. \<not> clipRegion c p \<longrightarrow> bm p = bitmap c p))"

text \<open>A pixel blended channel by channel with \<open>blendByte\<close>, made opaque.\<close>

definition blendRGBA :: "RGBA \<Rightarrow> RGBA \<Rightarrow> real \<Rightarrow> RGBA" where
  "blendRGBA sp tp alpha =
     \<lparr> px_r = blendByte (px_r sp) (px_r tp) alpha, px_g = blendByte (px_g sp) (px_g tp) alpha,
       px_b = blendByte (px_b sp) (px_b tp) alpha, px_a = 255 \<rparr>"

text \<open>
  The bitmap in which every pixel of \<open>rect\<close> is the feathered blend of the pixel at the
  same offset in \<open>source\<close> with the pixel itself, all read from the bitmap of \<open>ctx\<close>.
\<close>

definition clonedBitmap :: "Context2D \<Rightarrow> IntRect \<Rightarrow> IntRect \<Rightarrow> int \<times> int \<Rightarrow> RGBA" where
  "clonedBitmap ctx rect source p =
     (if in_rect rect p
      then blendRGBA (bitmap ctx (fst p - ir_x rect + ir_x source, snd p - ir_y rect + ir_y source))
                     (bitmap ctx p)
                     (featherAlpha rect (nat (fst p - ir_x rect)) (nat (snd p - ir_y rect)))
      else bitmap ctx p)"

text \<open>The rectangle lies entirely within the canvas bounds.\<close>

definition withinCanvas :: "Context2D \<Rightarrow> IntRect \<Rightarrow> bool" where
  "withinCanvas ctx r \<longleftrightarrow> 0 \<le> ir_x r \<and> 0 \<le> ir_y r \<and> ir_x r + ir_width r \<le> canvas_width ctx
                        \<and> ir_y r + ir_height r \<le> canvas_height ctx"

text \<open>
  The source rectangle of a direction as the specification words it: the same size as
  \<open>rect\<close>, moved away in that direction by the height (up, down) or the width (left,
  right) plus a gap of 2.
\<close>

definition shiftedRect :: "IntRect \<Rightarrow> CloneDirection \<Rightarrow> IntRect" where
  "shiftedRect rect d =
     (case d of
        Up \<Rightarrow> rect \<lparr> ir_y := ir_y rect - (ir_height rect + 2) \<rparr>
      | Down \<Rightarrow> rect \<lparr> ir_y := ir_y rect + (ir_height rect + 2) \<rparr>
      | DirLeft \<Rightarrow> rect \<lparr> ir_x := ir_x rect - (ir_width rect + 2) \<rparr>
      | DirRight \<Rightarrow> rect \<lparr> ir_x := ir_x rect + (ir_width rect + 2) \<rparr>)"

text \<open>
  The neighbour strips as the specification words them: the one-pixel column left of
  \<open>rect\<close>, the column right of it, the row above and the row below, each only when it
  is on the canvas.
\<close>

definition neighbourPixels :: "Context2D \<Rightarrow> IntRect \<Rightarrow> (int \<times> int) list" where
  "neighbourPixels ctx rect =
     (if ir_x rect > 0
      then map (\<lambda>j. (ir_x rect - 1, ir_y rect + int j)) [0..<nat (ir_height rect)] else [])
     @ (if ir_x rect + ir_width rect < canvas_width ctx
        then map (\<lambda>j. (ir_x rect + ir_width rect, ir_y rect + int j)) [0..<nat (ir_height rect)] else [])
     @ (if ir_y rect > 0
        then map (\<lambda>i. (ir_x rect + int i, ir_y rect - 1)) [0..<nat (ir_width rect)] else [])
     @ (if ir_y rect + ir_height rect < canvas_height ctx
        then map (\<lambda>i. (ir_x rect + int i, ir_y rect + ir_height rect)) [0..<nat (ir_width rect)] else [])"

text \<open>Sum and arithmetic mean of one channel over a list of pixel positions.\<close>

definition channelSum :: "(RGBA \<Rightarrow> 8 word) \<Rightarrow> Context2D \<Rightarrow> (int \<times> int) list \<Rightarrow> int" where
  "channelSum sel ctx ps = (\<Sum>p\<leftarrow>ps. uint (sel (bitmap ctx p)))"

definition channelMean :: "(RGBA \<Rightarrow> 8 word) \<Rightarrow> Context2D \<Rightarrow> (int \<times> int) list \<Rightarrow> real" where
  "channelMean sel ctx ps = real_of_int (channelSum sel ctx ps) / real (length ps)"

text \<open>The colour whose channels are the rounded means of the channels of the pixels \<open>ps\<close>.\<close>

definition meanColour :: "Context2D \<Rightarrow> (int \<times> int) list \<Rightarrow> RGBA" where
  "meanColour ctx ps =
     \<lparr> px_r = word_of_int (Math_round (channelMean px_r ctx ps)),
       px_g = word_of_int (Math_round (channelMean px_g ctx ps)),
       px_b = word_of_int (Math_round (channelMean px_b ctx ps)), px_a = 255 \<rparr>"

section \<open>Region resolver\<close>

text \<open>
  C3. For every canvas size \<open>W, H \<ge> 1\<close> and every rectangle (negative origin, negative
  size and sizes beyond the canvas included) the rectangle resolved by \<open>toIntRect\<close>
  satisfies \<open>0 \<le> x\<close>, \<open>0 \<le> y\<close>, \<open>x + width \<le> W\<close>, \<open>y + height \<le> H\<close>, with
  \<open>width \<ge> 0\<close> and \<open>height \<ge> 0\<close>.
\<close>

theorem toIntRect_bounds:
  assumes "1 \<le> W" and "1 \<le> H"
  shows "0 \<le> ir_x (toIntRect rect W H) \<and> 0 \<le> ir_y (toIntRect rect W H)
       \<and> ir_x (toIntRect rect W H) + ir_width (toIntRect rect W H) \<le> W
       \<and> ir_y (toIntRect rect W H) + ir_height (toIntRect rect W H) \<le> H
       \<and> 0 \<le> ir_width (toIntRect rect W H) \<and> 0 \<le> ir_height (toIntRect rect W H)"
  using assms by (auto simp add: toIntRect_def clamp_def Let_def max_def min_def)

theorem toIntRect_bounds_witness:
  "(1::int) \<le> 4 \<and> (1::int) \<le> 3
   \<and> toIntRect \<lparr> rect_x = -2.5, rect_y = 1.25, rect_width = 40, rect_height = -7 \<rparr> 4 3
       = \<lparr> ir_x = 0, ir_y = 1, ir_width = 4, ir_height = 0 \<rparr>
   \<and> 0 \<le> ir_x (toIntRect \<lparr> rect_x = -2.5, rect_y = 1.25, rect_width = 40, rect_height = -7 \<rparr> 4 3)
   \<and> ir_x (toIntRect \<lparr> rect_x = -2.5, rect_y = 1.25, rect_width = 40, rect_height = -7 \<rparr> 4 3)
       + ir_width (toIntRect \<lparr> rect_x = -2.5, rect_y = 1.25, rect_width = 40, rect_height = -7 \<rparr> 4 3) \<le> 4"
  using toIntRect_bounds [of 4 3 "\<lparr> rect_x = -2.5, rect_y = 1.25, rect_width = 40, rect_height = -7 \<rparr>"]
  by (simp add: toIntRect_def clamp_def Let_def)

section \<open>Style normalizer results\<close>

lemma digitChar_dec:
  assumes "d < 10"
  shows "isDigit (digitChar d)" and "digitValue (digitChar d) = int d"
    and "\<not> isWhiteSpace (digitChar d)" and "digitChar d \<noteq> CHR ''-''" and "digitChar d \<noteq> CHR ''+''"
proof -
  from assms have "d = 0 \<or> d = 1 \<or> d = 2 \<or> d = 3 \<or> d = 4 \<or> d = 5 \<or> d = 6 \<or> d = 7 \<or> d = 8 \<or> d = 9"
    by arith
  then show "isDigit (digitChar d)" and "digitValue (digitChar d) = int d"
    and "\<not> isWhiteSpace (digitChar d)" and "digitChar d \<noteq> CHR ''-''" and "digitChar d \<noteq> CHR ''+''"
    by (auto simp: digitChar_def isDigit_def digitValue_def isWhiteSpace_def)
qed

lemma natToString10_digits: "natToString 10 n \<noteq> [] \<and> list_all isDigit (natToString 10 n)"
proof (induction "10::nat" n rule: natToString.induct)
  case (1 n)
  show ?case
  proof (cases "n < 10")
    case True
    then show ?thesis by (simp add: natToString.simps [of 10 n] digitChar_dec)
  next
    case False
    with 1 show ?thesis by (simp add: natToString.simps [of 10 n] digitChar_dec)
  qed
qed

lemma digitsValue_natToString10: "digitsValue 10 (natToString 10 n) = int n"
proof (induction "10::nat" n rule: natToString.induct)
  case (1 n)
  show ?case
  proof (cases "n < 10")
    case True
    then show ?thesis by (simp add: natToString.simps [of 10 n] digitChar_dec digitsValue_def)
  next
    case False
    with 1 have "digitsValue 10 (natToString 10 (n div 10)) = int (n div 10)" by simp
    with False show ?thesis
      by (simp add: natToString.simps [of 10 n] digitChar_dec digitsValue_def zdiv_int zmod_int)
  qed
qed

lemma takeWhile_all: "list_all P xs \<Longrightarrow> takeWhile P xs = xs"
  by (induction xs) auto

lemma hd_natToString10:
  "\<not> isWhiteSpace (hd (natToString 10 n)) \<and> hd (natToString 10 n) \<noteq> CHR ''-'' \<and> hd (natToString 10 n) \<noteq> CHR ''+''"
proof -
  obtain c cs where e: "natToString 10 n = c # cs"
    using natToString10_digits [of n] by (cases "natToString 10 n") auto
  with natToString10_digits [of n] have "isDigit c" by simp
  then have "\<not> isWhiteSpace c \<and> c \<noteq> CHR ''-'' \<and> c \<noteq> CHR ''+''"
    by (auto simp: isDigit_def isWhiteSpace_def)
  with e show ?thesis by simp
qed

lemma parseInt10_intToString: "parseInt10 (intToString 10 n) = Some n"
proof (cases "n < 0")
  case False
  obtain c cs where e: "natToString 10 (nat n) = c # cs"
    using natToString10_digits [of "nat n"] by (cases "natToString 10 (nat n)") auto
  have h: "\<not> isWhiteSpace c \<and> c \<noteq> CHR ''-'' \<and> c \<noteq> CHR ''+''"
    using hd_natToString10 [of "nat n"] e by simp
  have t: "takeWhile isDigit (c # cs) = c # cs"
    using natToString10_digits [of "nat n"] e by (simp add: takeWhile_all del: takeWhile.simps)
  have v: "digitsValue 10 (c # cs) = n"
    using digitsValue_natToString10 [of "nat n"] e False by simp
  show ?thesis using False h
    by (simp add: parseInt10_def intToString_def e Let_def t v del: takeWhile.simps)
next
  case True
  obtain c cs where e: "natToString 10 (nat (- n)) = c # cs"
    using natToString10_digits [of "nat (- n)"] by (cases "natToString 10 (nat (- n))") auto
  have t: "takeWhile isDigit (c # cs) = c # cs"
    using natToString10_digits [of "nat (- n)"] e by (simp add: takeWhile_all del: takeWhile.simps)
  have v: "digitsValue 10 (c # cs) = - n"
    using digitsValue_natToString10 [of "nat (- n)"] e True by simp
  have w: "\<not> isWhiteSpace CHR ''-''" by (simp add: isWhiteSpace_def)
  show ?thesis using True w
    by (simp add: parseInt10_def intToString_def e Let_def t v del: takeWhile.simps)
qed



lemma normalizeWeight_number:
  "normalizeWeight (WNumber n) = clamp (Math_round (real_of_int n / 100) * 100) 100 900"
  by (simp add: normalizeWeight_def weightString_def parseInt10_intToString)



section \<open>Measuring a line\<close>

lemma measure_fold:
  "k \<le> length text \<Longrightarrow>
   fold (\<lambda>i width. let width = width + m [text ! i]
                    in if int i < int (length text) - 1 then width + s else width) [0..<k] (0::real)
   = (\<Sum>c\<leftarrow>take k text. m [c]) + s * real (min k (length text - 1))"
proof (induction k)
  case 0
  then show ?case by simp
next
  case (Suc k)
  then have lt: "k < length text" by simp
  have "(\<Sum>c\<leftarrow>take (Suc k) text. m [c]) = (\<Sum>c\<leftarrow>take k text. m [c]) + m [text ! k]"
    using lt by (simp add: take_Suc_conv_app_nth)
  moreover have "real (min (Suc k) (length text - 1)) =
      real (min k (length text - 1)) + (if int k < int (length text) - 1 then 1 else 0)"
    using lt by (auto simp: min_def)
  ultimately show ?case using Suc by (simp add: Let_def algebra_simps)
qed

text \<open>
  C5 (as amended).  For every non-empty line of \<open>n\<close> characters, \<open>measureLineWidth\<close> with
  letter spacing 0 is the host's measurement of the whole line; with letter spacing
  \<open>s \<noteq> 0\<close> it is the sum of the host's measurements of the \<open>n\<close> single characters plus
  \<open>s * (n - 1)\<close>.
\<close>

theorem measureLineWidth_spacing:
  assumes "text \<noteq> []"
  shows "measureLineWidth host ctx text 0 = measureText host ctx text
       \<and> (if s = 0 then measureLineWidth host ctx text s = measureText host ctx text
          else measureLineWidth host ctx text s
               = (\<Sum>c\<leftarrow>text. measureText host ctx [c]) + s * (real (length text) - 1))"
proof -
  have "real (length text - 1) = real (length text) - 1"
    using assms by (cases "text") auto
  then show ?thesis
    using assms measure_fold [of "length text" "text" "measureText host ctx" s]
    by (simp add: measureLineWidth_def)
qed

theorem measureLineWidth_spacing_witness:
  "''AV'' \<noteq> [] \<and> measureLineWidth kernHost (gradientCanvas 4 4) ''AV'' 0 = 10
   \<and> measureLineWidth kernHost (gradientCanvas 4 4) ''AV'' 1 = 13"
  using measureLineWidth_spacing [of "''AV''" kernHost "gradientCanvas 4 4" 1]
  by (simp add: measureText_def kernHost_def)

text \<open>
  With a kerning pair the sum of the single advances is not the measurement of the whole
  line: for \<open>AV\<close> at spacing 1 the renderer measures 13, the host 10, and 10 + 1 is 11.
\<close>

theorem measureLineWidth_native_counterexample:
  "measureLineWidth kernHost (gradientCanvas 4 4) ''AV'' 1
   \<noteq> measureText kernHost (gradientCanvas 4 4) ''AV'' + 1 * (real (length ''AV'') - 1)"
  by (simp add: measureLineWidth_def measureText_def kernHost_def)

section \<open>Wrapping\<close>

lemma split_nl_nonempty: "split_nl s \<noteq> []"
  by (induction s) (auto split: list.splits)



lemma split_nl_newlines: "split_nl (replicate n newline @ b) = replicate n [] @ split_nl b"
  by (induction n) auto



lemma wrapLineByChars_nonempty: "wrapLineByChars host ctx line w s \<noteq> []"
  by (simp add: wrapLineByChars_def Let_def)


lemma wrapLoop:
  "qs \<noteq> [] \<Longrightarrow> k + length qs = n \<Longrightarrow>
   fold (\<lambda>(index, line) lines.
           let lines = lines @ wrapLineByChars host ctx line w s
           in if int index < int n - 1 \<and> line = [] then lines @ [[]] else lines)
        (zip [k..<k + length qs] qs) acc
   = acc @ concat (map (\<lambda>p. wrapLineByChars host ctx p w s @ (if p = [] then [[]] else [])) (butlast qs))
         @ wrapLineByChars host ctx (last qs) w s"
proof (induction qs arbitrary: k acc)
  case Nil
  then show ?case by simp
next
  case (Cons q qs)
  have u: "[k..<k + length (q # qs)] = k # [Suc k..<Suc k + length qs]"
    using upt_conv_Cons [of k "Suc (k + length qs)"] by simp
  show ?case
  proof (cases "qs = []")
    case True
    with Cons.prems show ?thesis unfolding u by (simp add: Let_def)
  next
    case False
    with Cons.prems have lt: "int k < int n - 1"
      by (cases qs) auto
    from Cons.prems have "Suc k + length qs = n" by simp
    from Cons.IH [OF False this] False lt show ?thesis
      unfolding u by (simp add: Let_def)
  qed
qed

lemma wrapText_paragraphs:
  "wrapText host ctx txt w s =
     concat (map (\<lambda>p. wrapLineByChars host ctx p w s @ (if p = [] then [[]] else []))
                 (butlast (split_nl txt)))
     @ wrapLineByChars host ctx (last (split_nl txt)) w s"
proof -
  have ne: "split_nl txt \<noteq> []" by (rule split_nl_nonempty)
  have len: "0 + length (split_nl txt) = length (split_nl txt)" by simp
  have nw: "wrapLineByChars host ctx (last (split_nl txt)) w s \<noteq> []"
    by (rule wrapLineByChars_nonempty)
  show ?thesis
    using wrapLoop [OF ne len, where acc = "[]" and host = host and ctx = ctx and w = w and s = s] nw
    by (simp add: wrapText_def Let_def)
qed










section \<open>Rectangles one pixel wide\<close>

lemma wrapLineByChars_narrow_any: "maxWidth \<le> 1 \<Longrightarrow> wrapLineByChars host ctx line maxWidth s = [line]"
  by (simp add: wrapLineByChars_def)

lemma wrapText_narrow:
  "maxWidth \<le> 1 \<Longrightarrow>
   wrapText host ctx txt maxWidth s
   = concat (map (\<lambda>p. if p = [] then [[], []] else [p]) (butlast (split_nl txt))) @ [last (split_nl txt)]"
proof -
  assume w: "maxWidth \<le> 1"
  have "(\<lambda>p. wrapLineByChars host ctx p maxWidth s @ (if p = [] then [[]] else []))
        = (\<lambda>p. if p = [] then [[], []] else [p])"
    using w by (auto simp: wrapLineByChars_narrow_any)
  then show ?thesis
    using w by (simp add: wrapText_paragraphs wrapLineByChars_narrow_any)
qed

lemma fitLoop_lines_narrow:
  "ir_width rect \<le> 1 \<Longrightarrow>
   minFontSize \<le> fst (snd st) \<or> fst (snd (snd st))
      = concat (map (\<lambda>p. if p = [] then [[], []] else [p]) (butlast (split_nl txt))) @ [last (split_nl txt)] \<Longrightarrow>
   fst (snd (snd (fitLoop host txt rect wt fam s lh st)))
   = concat (map (\<lambda>p. if p = [] then [[], []] else [p]) (butlast (split_nl txt))) @ [last (split_nl txt)]"
proof (induction host "txt" rect wt fam s lh st rule: fitLoop.induct)
  case (1 host tx rect wt fam s lh ctx fsize lines lhp)
  from "1.prems"(1) have w: "real_of_int (ir_width rect) \<le> 1" by simp
  show ?case
  proof (cases "minFontSize \<le> fsize")
    case False
    with "1.prems"(2) show ?thesis
      by (subst fitLoop.simps) simp
  next
    case True
    show ?thesis
      using True "1.prems"(1) "1.IH" [OF True refl refl refl refl refl]
      by (subst fitLoop.simps) (simp add: Let_def wrapText_narrow [OF w])
  qed
qed


text \<open>
  C10. For every non-empty line, every letter spacing and every target width
  \<open>maxWidth \<le> 1\<close>, \<open>wrapLineByChars\<close> returns the whole line as one output line, whatever
  the host measures; so for a resolved rectangle one pixel wide \<open>wrapText\<close>, and with it
  the autofit loop of \<open>drawText\<close>, yields the paragraphs of the text unbroken (an empty
  paragraph before the last twice).
\<close>

theorem narrow_rect_never_wraps:
  assumes "line \<noteq> []" and "maxWidth \<le> 1" and "ir_width rect = 1" and "minFontSize \<le> fsize"
  shows "wrapLineByChars host ctx line maxWidth s = [line]
       \<and> wrapText host ctx txt (real_of_int (ir_width rect)) s
           = concat (map (\<lambda>p. if p = [] then [[], []] else [p]) (butlast (split_nl txt)))
             @ [last (split_nl txt)]
       \<and> fst (snd (snd (fitLoop host txt rect wt fam s lh (ctx, fsize, lines, lhp))))
           = concat (map (\<lambda>p. if p = [] then [[], []] else [p]) (butlast (split_nl txt)))
             @ [last (split_nl txt)]"
proof -
  have "real_of_int (ir_width rect) \<le> 1" and "ir_width rect \<le> 1"
    using assms(3) by simp_all
  then show ?thesis
    using assms(2,4) wrapLineByChars_narrow_any [of maxWidth host ctx line s]
      wrapText_narrow [of "real_of_int (ir_width rect)" host ctx "txt" s]
      fitLoop_lines_narrow [of rect "(ctx, fsize, lines, lhp)" "txt" host wt fam s lh]
    by simp
qed

theorem narrow_rect_never_wraps_witness:
  "''WWWWWWWW'' \<noteq> [] \<and> (1::real) \<le> 1 \<and> minFontSize \<le> 16
   \<and> ir_width \<lparr> ir_x = 3, ir_y = 0, ir_width = 1, ir_height = 40 \<rparr> = 1
   \<and> wrapLineByChars emHost (gradientCanvas 4 40) ''WWWWWWWW'' 1 0 = [''WWWWWWWW'']
   \<and> fst (snd (snd (fitLoop emHost (''WWWW'' @ [newline] @ ''WW'')
          \<lparr> ir_x = 3, ir_y = 0, ir_width = 1, ir_height = 40 \<rparr> 500 ''Arial'' 0 1
          (gradientCanvas 4 40, 16, [], 0))))
       = [''WWWW'', ''WW'']"
  using narrow_rect_never_wraps [of "''WWWWWWWW''" 1 "\<lparr> ir_x = 3, ir_y = 0, ir_width = 1, ir_height = 40 \<rparr>"
      16 emHost "gradientCanvas 4 40" 0 "''WWWW'' @ [newline] @ ''WW''" 500 "''Arial''" 1 "[]" 0]
  by (simp add: minFontSize_def newline_def)

section \<open>Painting stays inside the clip region\<close>

lemma paintedWithinClip_refl: "paintedWithinClip c c"
  unfolding paintedWithinClip_def by (rule exI [of _ "bitmap c"]) simp

lemma paintedWithinClip_trans:
  assumes "paintedWithinClip a b" and "paintedWithinClip b c"
  shows "paintedWithinClip a c"
proof -
  from assms(1) obtain bm where b: "b = a \<lparr> bitmap := bm \<rparr>"
    and bm: "\<forall>p. \<not> clipRegion a p \<longrightarrow> bm p = bitmap a p"
    unfolding paintedWithinClip_def by blast
  from assms(2) obtain bm' where c: "c = b \<lparr> bitmap := bm' \<rparr>"
    and bm': "\<forall>p. \<not> clipRegion b p \<longrightarrow> bm' p = bitmap b p"
    unfolding paintedWithinClip_def by blast
  have "c = a \<lparr> bitmap := bm' \<rparr>" using b c by simp
  moreover have "\<forall>p. \<not> clipRegion a p \<longrightarrow> bm' p = bitmap a p"
    using bm bm' b by simp
  ultimately show ?thesis unfolding paintedWithinClip_def by blast
qed

lemma fillText_within: "paintedWithinClip c (fillText host c t x y)"
  unfolding paintedWithinClip_def fillText_def by (rule exI) (rule conjI, rule refl, simp)

lemma spacingLoop_within:
  "paintedWithinClip c0 (fst st) \<Longrightarrow>
   paintedWithinClip c0 (fst (fold (\<lambda>i (c, cursorX).
        let ch = [line ! i];
            c = fillText host c ch cursorX y;
            cursorX = cursorX + measureText host c ch
        in (c, if int i < int (length line) - 1 then cursorX + spacing else cursorX)) idxs st))"
proof (induction idxs arbitrary: st)
  case Nil
  then show ?case by simp
next
  case (Cons i idxs)
  obtain c cx where st: "st = (c, cx)" by (cases st)
  have "paintedWithinClip c0 (fillText host c [line ! i] cx y)"
    using Cons.prems fillText_within paintedWithinClip_trans st by fastforce
  then show ?case
    using Cons.IH [of "(fillText host c [line ! i] cx y,
        if int i < int (length line) - 1
        then cx + measureText host (fillText host c [line ! i] cx y) [line ! i] + spacing
        else cx + measureText host (fillText host c [line ! i] cx y) [line ! i])"]
    by (simp add: st Let_def)
qed

lemma drawLineWithSpacing_within: "paintedWithinClip c (drawLineWithSpacing host c line x y spacing)"
  unfolding drawLineWithSpacing_def
  using spacingLoop_within [of c "(c, x)" line host y spacing "[0..<length line]"]
  by (simp add: paintedWithinClip_refl fillText_within)

lemma drawLines_loop_within:
  "paintedWithinClip c0 c \<Longrightarrow>
   paintedWithinClip c0 (fold (\<lambda>(index, line) c.
       let lineWidth = measureLineWidth host c line spacing;
           startX = (if hAl = Center
                     then real_of_int (ir_x rect) + (real_of_int (ir_width rect) - lineWidth) / 2
                     else if hAl = Right
                     then real_of_int (ir_x rect) + real_of_int (ir_width rect) - lineWidth
                     else real_of_int (ir_x rect))
       in drawLineWithSpacing host c line startX (startY + real index * lineHeightPx) spacing) zs c)"
proof (induction zs arbitrary: c)
  case Nil
  then show ?case by simp
next
  case (Cons z zs)
  obtain index line where z: "z = (index, line)" by (cases z)
  have "paintedWithinClip c0 (drawLineWithSpacing host c line x y spacing)" for x y
    by (rule paintedWithinClip_trans [OF Cons.prems drawLineWithSpacing_within])
  from Cons.IH [OF this] show ?case
    by (simp add: z Let_def)
qed

lemma drawLines_within: "paintedWithinClip c (drawLines host c rect hAl spacing startY lineHeightPx lines)"
  unfolding drawLines_def by (rule drawLines_loop_within) (rule paintedWithinClip_refl)

lemma fitLoop_font_only:
  "\<exists>f. fst (fitLoop host txt rect wt fam s lh st) = (fst st) \<lparr> font := f \<rparr>"
proof (induction host "txt" rect wt fam s lh st rule: fitLoop.induct)
  case (1 host tx rect wt fam s lh ctx fsize lines lhp)
  show ?case
  proof (cases "minFontSize \<le> fsize")
    case False
    then have "fst (fitLoop host tx rect wt fam s lh (ctx, fsize, lines, lhp)) = ctx \<lparr> font := font ctx \<rparr>"
      by (subst fitLoop.simps) simp
    then show ?thesis by (intro exI [of _ "font ctx"]) simp
  next
    case True
    let ?c1 = "setFont ctx wt fsize fam"
    let ?l1 = "wrapText host ?c1 tx (real_of_int (ir_width rect)) s"
    show ?thesis
    proof (cases "real (length ?l1) * (fsize * lh) \<le> real_of_int (ir_height rect)
          \<and> fold (\<lambda>line mx. max mx (measureLineWidth host ?c1 line s)) ?l1 0 \<le> real_of_int (ir_width rect)")
      case fits: True
      have "fst (fitLoop host tx rect wt fam s lh (ctx, fsize, lines, lhp)) = ?c1"
        using True fits by (subst fitLoop.simps) (simp add: Let_def)
      then show ?thesis by (auto simp: setFont_def)
    next
      case unfit: False
      have e: "fitLoop host tx rect wt fam s lh (ctx, fsize, lines, lhp)
            = fitLoop host tx rect wt fam s lh (?c1, fsize - 0.5, ?l1, fsize * lh)"
        using True unfit by (subst fitLoop.simps) (auto simp: Let_def)
      from "1.IH" [OF True refl refl refl refl refl unfit]
      obtain f where "fst (fitLoop host tx rect wt fam s lh (?c1, fsize - 0.5, ?l1, fsize * lh)) = ?c1 \<lparr> font := f \<rparr>"
        by auto
      then show ?thesis unfolding e by (auto simp: setFont_def)
    qed
  qed
qed


lemma bitmap_fitLoop: "bitmap (fst (fitLoop host txt rect wt fam s lh st)) = bitmap (fst st)"
proof -
  obtain f where "fst (fitLoop host txt rect wt fam s lh st) = (fst st) \<lparr> font := f \<rparr>"
    using fitLoop_font_only by blast
  then show ?thesis by simp
qed

lemma bitmap_setFont: "bitmap (setFont c wt fsize fam) = bitmap c"
  by (simp add: setFont_def)

lemma bitmap_set_fillStyle: "bitmap (set_fillStyle c col) = bitmap c"
  by (simp add: set_fillStyle_def split: option.splits)

lemma in_rect_normal:
  "0 \<le> w \<Longrightarrow> 0 \<le> h \<Longrightarrow>
   in_rect \<lparr> ir_x = min x (x + w), ir_y = min y (y + h), ir_width = \<bar>w\<bar>, ir_height = \<bar>h\<bar> \<rparr> p
   = in_rect \<lparr> ir_x = x, ir_y = y, ir_width = w, ir_height = h \<rparr> p"
  by (simp add: in_rect_def min_def)

lemma clipped_paint:
  assumes "\<not> in_rect \<lparr> ir_x = min x (x + w), ir_y = min y (y + h), ir_width = \<bar>w\<bar>, ir_height = \<bar>h\<bar> \<rparr> p"
  shows "bitmap (ctx_restore (drawLines host (ctx_clip (ctx_rect (beginPath (ctx_save c)) x y w h))
            rect hAl spacing startY lineHeightPx lines)) p = bitmap c p"
proof -
  let ?c5 = "ctx_clip (ctx_rect (beginPath (ctx_save c)) x y w h)"
  obtain bm where d: "drawLines host ?c5 rect hAl spacing startY lineHeightPx lines = ?c5 \<lparr> bitmap := bm \<rparr>"
    and o: "\<forall>q. \<not> clipRegion ?c5 q \<longrightarrow> bm q = bitmap ?c5 q"
    using drawLines_within [of ?c5 host rect hAl spacing startY lineHeightPx lines]
    unfolding paintedWithinClip_def by blast
  have "\<not> clipRegion ?c5 p"
    using assms by (simp add: ctx_clip_def ctx_rect_def beginPath_def ctx_save_def)
  with o have "bm p = bitmap ?c5 p" by blast
  also have "\<dots> = bitmap c p"
    by (simp add: ctx_clip_def ctx_rect_def beginPath_def ctx_save_def)
  finally have "bm p = bitmap c p" .
  moreover have "bitmap (ctx_restore (?c5 \<lparr> bitmap := bm \<rparr>)) = bm"
    by (simp add: ctx_restore_def ctx_clip_def ctx_rect_def beginPath_def ctx_save_def)
  ultimately show ?thesis by (simp add: d)
qed

lemma drawText_frame:
  assumes "0 \<le> ir_width rect" and "0 \<le> ir_height rect" and "\<not> in_rect rect p"
  shows "bitmap (drawText host ctx overlay rect) p = bitmap ctx p"
proof -
  have n: "\<not> in_rect \<lparr> ir_x = min (ir_x rect) (ir_x rect + ir_width rect),
                     ir_y = min (ir_y rect) (ir_y rect + ir_height rect),
                     ir_width = \<bar>ir_width rect\<bar>, ir_height = \<bar>ir_height rect\<bar> \<rparr> p"
    using assms by (simp add: in_rect_normal) (simp add: in_rect_def)
  show ?thesis
    unfolding drawText_def Let_def
    by (subst clipped_paint [OF n]) (simp add: bitmap_set_fillStyle bitmap_setFont bitmap_fitLoop)
qed

section \<open>The feathered blend, pixel by pixel\<close>

lemma length_blendPixel: "length (blendPixel src tgt rect y x out) = length out"
  by (simp add: blendPixel_def Let_def)

lemma quad_update_nth:
  assumes "k < length out"
  shows "(out [4 * q := a, 4 * q + 1 := b, 4 * q + 2 := c, 4 * q + 3 := d]) ! k =
         (if k = 4 * q + 3 then d else if k = 4 * q + 2 then c
          else if k = 4 * q + 1 then b else if k = 4 * q then a else out ! k)"
  using assms by (simp add: nth_list_update)

lemma quad_write_nth:
  assumes "k < length out" and "idx = 4 * q"
  shows "(out [idx := f idx, idx + 1 := f (idx + 1), idx + 2 := f (idx + 2), idx + 3 := d]) ! k =
         (if k div 4 = q then (if k mod 4 = 3 then d else f k) else out ! k)"
proof -
  have "k div 4 = q \<longleftrightarrow> k = 4 * q \<or> k = 4 * q + 1 \<or> k = 4 * q + 2 \<or> k = 4 * q + 3"
    and "k = 4 * q + 3 \<Longrightarrow> k mod 4 = 3"
    and "k = 4 * q \<Longrightarrow> k mod 4 \<noteq> 3"
    and "k = 4 * q + 1 \<Longrightarrow> k mod 4 \<noteq> 3"
    and "k = 4 * q + 2 \<Longrightarrow> k mod 4 \<noteq> 3"
    by presburger+
  then show ?thesis
    unfolding assms(2) quad_update_nth [OF assms(1)] by auto
qed

lemma blendPixel_nth:
  assumes "k < length out"
  shows "blendPixel src tgt rect y x out ! k =
         (if k div 4 = y * nat (ir_width rect) + x
          then (if k mod 4 = 3 then 255 else blendChannel src tgt k (featherAlpha rect x y))
          else out ! k)"
  unfolding blendPixel_def Let_def
  by (rule quad_write_nth [OF assms, where f = "\<lambda>i. blendChannel src tgt i (featherAlpha rect x y)"]) simp

lemma blendRow_nth:
  assumes "k < length out"
  shows "fold (blendPixel src tgt rect y) [0..<n] out ! k =
         (if \<exists>x<n. k div 4 = y * nat (ir_width rect) + x
          then (if k mod 4 = 3 then 255
                else blendChannel src tgt k (featherAlpha rect (k div 4 - y * nat (ir_width rect)) y))
          else out ! k)"
    and "length (fold (blendPixel src tgt rect y) [0..<n] out) = length out"
proof (induction n)
  case 0
  { case 1 show ?case by simp }
  { case 2 show ?case by simp }
next
  case (Suc n)
  { case 1
    have l: "k < length (fold (blendPixel src tgt rect y) [0..<n] out)"
      using Suc(2) assms by simp
    show ?case
      using Suc(1) by (auto simp: blendPixel_nth [OF l] less_Suc_eq) }
  { case 2 show ?case using Suc(2) by (simp add: length_blendPixel) }
qed

section \<open>Cloning from a neighbouring region\<close>

lemma length_blendRow: "length (fold (blendPixel src tgt rect y) xs out) = length out"
  by (induction xs arbitrary: out) (simp_all add: length_blendPixel)

lemma length_blendLoop: "length (blendLoop src tgt rect out) = length out"
proof -
  have "length (fold (\<lambda>y. fold (\<lambda>x. blendPixel src tgt rect y x) [0..<n]) ys out) = length out" for n ys
    by (induction ys arbitrary: out) (simp_all add: length_blendRow)
  then show ?thesis by (simp add: blendLoop_def)
qed

lemma row_index:
  assumes "0 < w"
  shows "(\<exists>x<w. q = m * w + x) \<longleftrightarrow> q div w = (m::nat)"
proof
  assume "\<exists>x<w. q = m * w + x"
  then show "q div w = m" by auto
next
  assume "q div w = m"
  then have "q = m * w + q mod w" by (metis div_mult_mod_eq)
  moreover have "q mod w < w" using assms by simp
  ultimately show "\<exists>x<w. q = m * w + x" by blast
qed

lemma blendRows_nth:
  assumes "k < length out" and "0 < ir_width rect"
  shows "fold (\<lambda>y. fold (\<lambda>x. blendPixel src tgt rect y x) [0..<nat (ir_width rect)]) [0..<m] out ! k =
         (if (k div 4) div nat (ir_width rect) < m
          then (if k mod 4 = 3 then 255
                else blendChannel src tgt k
                       (featherAlpha rect ((k div 4) mod nat (ir_width rect)) ((k div 4) div nat (ir_width rect))))
          else out ! k)"
proof (induction m)
  case 0
  show ?case by simp
next
  case (Suc m)
  let ?w = "nat (ir_width rect)"
  let ?prev = "fold (\<lambda>y. fold (\<lambda>x. blendPixel src tgt rect y x) [0..<?w]) [0..<m] out"
  have w: "0 < ?w" using assms(2) by simp
  have len: "length ?prev = length out"
    by (induction m) (simp_all add: length_blendRow)
  then have l: "k < length ?prev" using assms(1) by simp
  have sub: "(k div 4) div ?w = m \<Longrightarrow> k div 4 - m * ?w = (k div 4) mod ?w"
    by (metis add_diff_cancel_left' div_mult_mod_eq mult.commute)
  show ?case
    using Suc sub by (auto simp: blendRow_nth(1) [OF l] row_index [OF w] less_Suc_eq)
qed

lemma pixel_index_bound:
  assumes "i < (w::nat)" and "j < h"
  shows "j * w + i < w * h"
proof -
  have "j * w + i < j * w + w" using assms(1) by simp
  also have "\<dots> = Suc j * w" by simp
  also have "\<dots> \<le> h * w" using assms(2) by (intro mult_le_mono1) simp
  finally show ?thesis by (simp add: mult.commute)
qed

lemma byte_index_bound:
  assumes "i < (w::nat)" and "j < h" and "c < 4"
  shows "4 * (j * w + i) + c < 4 * w * h"
  using pixel_index_bound [OF assms(1,2)] assms(3) by simp

lemma pixel_index_div_mod:
  assumes "i < (w::nat)"
  shows "(j * w + i) div w = j" and "(j * w + i) mod w = i"
  using assms by simp_all

lemma byte_index_div_mod:
  assumes "c < (4::nat)"
  shows "(4 * q + c) div 4 = q" and "(4 * q + c) mod 4 = c"
  using assms by simp_all

lemma blendLoop_nth:
  assumes "i < nat (ir_width rect)" and "j < nat (ir_height rect)" and "c < 4"
    and "length out = 4 * nat (ir_width rect) * nat (ir_height rect)"
  shows "blendLoop src tgt rect out ! (4 * (j * nat (ir_width rect) + i) + c) =
         (if c = 3 then 255
          else blendChannel src tgt (4 * (j * nat (ir_width rect) + i) + c) (featherAlpha rect i j))"
proof -
  define q where "q = j * nat (ir_width rect) + i"
  have k: "4 * q + c < length out"
    unfolding q_def assms(4) by (rule byte_index_bound [OF assms(1,2,3)])
  have w: "0 < ir_width rect" using assms(1) by simp
  have d: "(4 * q + c) div 4 = q"
    by (rule byte_index_div_mod(1) [OF assms(3)])
  have m: "(4 * q + c) mod 4 = c"
    by (rule byte_index_div_mod(2) [OF assms(3)])
  have dj: "q div nat (ir_width rect) = j"
    unfolding q_def by (rule pixel_index_div_mod(1) [OF assms(1)])
  have mi: "q mod nat (ir_width rect) = i"
    unfolding q_def by (rule pixel_index_div_mod(2) [OF assms(1)])
  have "blendLoop src tgt rect out ! (4 * q + c) =
         (if c = 3 then 255 else blendChannel src tgt (4 * q + c) (featherAlpha rect i j))"
    unfolding blendLoop_def blendRows_nth [OF k w] d m dj mi
    using assms(2) by simp
  then show ?thesis by (simp only: q_def)
qed

lemma getImageData_ok:
  assumes "0 < sw" and "0 < sh"
  shows "\<exists>img. getImageData ctx sx sy sw sh = Inr img \<and> img_width img = sw \<and> img_height img = sh
          \<and> length (img_data img) = 4 * nat sw * nat sh"
  using assms by (simp add: getImageData_def)

lemma getImageData_nth:
  assumes "getImageData ctx sx sy sw sh = Inr img"
    and "i < nat sw" and "j < nat sh" and "c < 4"
    and "in_canvas ctx (sx + int i, sy + int j)"
  shows "img_data img ! (4 * (j * nat sw + i) + c) = channel (bitmap ctx (sx + int i, sy + int j)) c"
proof -
  define q where "q = j * nat sw + i"
  have pos: "0 < sw" "0 < sh" using assms(2,3) by simp_all
  have k: "4 * q + c < 4 * nat sw * nat sh"
    unfolding q_def by (rule byte_index_bound [OF assms(2,3,4)])
  have d: "(4 * q + c) div 4 = q"
    by (rule byte_index_div_mod(1) [OF assms(4)])
  have m: "(4 * q + c) mod 4 = c"
    by (rule byte_index_div_mod(2) [OF assms(4)])
  have dj: "q div nat sw = j"
    unfolding q_def by (rule pixel_index_div_mod(1) [OF assms(2)])
  have mi: "q mod nat sw = i"
    unfolding q_def by (rule pixel_index_div_mod(2) [OF assms(2)])
  from assms(1) pos have "img_data img =
      map (\<lambda>k. let p = (sx + int ((k div 4) mod nat sw), sy + int ((k div 4) div nat sw))
                in channel (if in_canvas ctx p then bitmap ctx p else transparent_black) (k mod 4))
          [0..<4 * nat sw * nat sh]"
    by (auto simp: getImageData_def)
  then have "img_data img ! (4 * q + c) = channel (bitmap ctx (sx + int i, sy + int j)) c"
    using k assms(4,5) by (simp add: d m dj mi Let_def del: upt_Suc)
  then show ?thesis by (simp only: q_def)
qed

lemma putImageData_inside:
  assumes "in_canvas ctx (dx + int i, dy + int j)" and "i < nat (img_width img)" and "j < nat (img_height img)"
  shows "bitmap (putImageData ctx img dx dy) (dx + int i, dy + int j)
         = \<lparr> px_r = img_data img ! (4 * (j * nat (img_width img) + i)),
             px_g = img_data img ! (4 * (j * nat (img_width img) + i) + 1),
             px_b = img_data img ! (4 * (j * nat (img_width img) + i) + 2),
             px_a = img_data img ! (4 * (j * nat (img_width img) + i) + 3) \<rparr>"
proof -
  have "int i < img_width img" and "int j < img_height img"
    using assms(2,3) by linarith+
  then show ?thesis
    using assms(1) by (simp add: putImageData_def Let_def)
qed

lemma cloneFrom_result:
  assumes rect: "withinCanvas ctx rect" and pos: "0 < ir_width rect" "0 < ir_height rect"
    and src: "withinCanvas ctx source" "ir_width source = ir_width rect" "ir_height source = ir_height rect"
  shows "cloneFrom ctx rect source = Inr (ctx \<lparr> bitmap := clonedBitmap ctx rect source \<rparr>)"
proof -
  let ?w = "ir_width rect" and ?h = "ir_height rect"
  obtain S where S: "getImageData ctx (ir_x source) (ir_y source) ?w ?h = Inr S"
    and lS: "length (img_data S) = 4 * nat ?w * nat ?h"
    using getImageData_ok [OF pos] by blast
  obtain T where T: "getImageData ctx (ir_x rect) (ir_y rect) ?w ?h = Inr T"
    and lT: "length (img_data T) = 4 * nat ?w * nat ?h"
    using getImageData_ok [OF pos] by blast
  let ?out = "blendLoop (img_data S) (img_data T) rect (img_data T)"
  have lo: "length ?out = 4 * nat ?w * nat ?h"
    by (simp add: length_blendLoop lT)
  then have "int (length ?out) = 4 * ?w * ?h" using pos by simp
  then have N: "newImageData ?out ?w ?h = Inr \<lparr> img_width = ?w, img_height = ?h, img_data = ?out \<rparr>"
    using pos by (simp add: newImageData_def)
  have cf: "cloneFrom ctx rect source
        = Inr (putImageData ctx \<lparr> img_width = ?w, img_height = ?h, img_data = ?out \<rparr> (ir_x rect) (ir_y rect))"
    by (simp add: cloneFrom_def bind_err_def S T N)
  have "bitmap (putImageData ctx \<lparr> img_width = ?w, img_height = ?h, img_data = ?out \<rparr> (ir_x rect) (ir_y rect)) p
        = clonedBitmap ctx rect source p" for p
  proof (cases "in_rect rect p")
    case False
    then show ?thesis
      by (auto simp: putImageData_def clonedBitmap_def in_rect_def)
  next
    case True
    define i where "i = nat (fst p - ir_x rect)"
    define j where "j = nat (snd p - ir_y rect)"
    have i: "i < nat ?w" and j: "j < nat ?h"
      and px: "fst p = ir_x rect + int i" and py: "snd p = ir_y rect + int j"
      using True by (auto simp: in_rect_def i_def j_def)
    have pc: "in_canvas ctx p"
      using True rect by (auto simp: in_rect_def withinCanvas_def in_canvas_def)
    have tc: "in_canvas ctx (ir_x rect + int i, ir_y rect + int j)"
      using pc px py by (simp add: in_canvas_def)
    have sc: "in_canvas ctx (ir_x source + int i, ir_y source + int j)"
      using src i j by (auto simp: withinCanvas_def in_canvas_def)
    define k where "k = 4 * (j * nat ?w + i)"
    have kb: "k + c < 4 * nat ?w * nat ?h" if "c < 4" for c
      unfolding k_def by (rule byte_index_bound [OF i j that])
    have sv: "img_data S ! (k + c) = channel (bitmap ctx (ir_x source + int i, ir_y source + int j)) c"
      if "c < 4" for c
      unfolding k_def by (rule getImageData_nth [OF S i j that sc])
    have tv: "img_data T ! (k + c) = channel (bitmap ctx p) c" if "c < 4" for c
      using getImageData_nth [OF T i j that tc] px py unfolding k_def by (cases p) simp
    have ov: "?out ! (k + c) = (if c = 3 then 255 else
        blendByte (channel (bitmap ctx (ir_x source + int i, ir_y source + int j)) c)
                  (channel (bitmap ctx p) c) (featherAlpha rect i j))" if "c < 4" for c
      using blendLoop_nth [OF i j that, of "img_data T" "img_data S" "img_data T"] lT kb [OF that]
        sv [OF that] tv [OF that]
      unfolding k_def [symmetric] by (simp add: blendChannel_def lS lT)
    have o0: "?out ! (k + 0) = blendByte (px_r (bitmap ctx (ir_x source + int i, ir_y source + int j)))
                  (px_r (bitmap ctx p)) (featherAlpha rect i j)"
      by (subst ov) (simp_all add: channel_def)
    have o1: "?out ! (k + 1) = blendByte (px_g (bitmap ctx (ir_x source + int i, ir_y source + int j)))
                  (px_g (bitmap ctx p)) (featherAlpha rect i j)"
      by (subst ov) (simp_all add: channel_def)
    have o2: "?out ! (k + 2) = blendByte (px_b (bitmap ctx (ir_x source + int i, ir_y source + int j)))
                  (px_b (bitmap ctx p)) (featherAlpha rect i j)"
      by (subst ov) (simp_all add: channel_def)
    have o3: "?out ! (k + 3) = 255"
      by (subst ov) simp_all
    have pe: "p = (ir_x rect + int i, ir_y rect + int j)"
      using px py by (cases p) simp
    have "bitmap (putImageData ctx \<lparr> img_width = ?w, img_height = ?h, img_data = ?out \<rparr> (ir_x rect) (ir_y rect)) p
          = \<lparr> px_r = ?out ! (k + 0), px_g = ?out ! (k + 1), px_b = ?out ! (k + 2), px_a = ?out ! (k + 3) \<rparr>"
      using putImageData_inside [of ctx "ir_x rect" i "ir_y rect" j
          "\<lparr> img_width = ?w, img_height = ?h, img_data = ?out \<rparr>"] tc i j
      unfolding pe k_def by simp
    also have "\<dots> = blendRGBA (bitmap ctx (ir_x source + int i, ir_y source + int j)) (bitmap ctx p)
          (featherAlpha rect i j)"
      unfolding o0 o1 o2 o3 blendRGBA_def ..
    also have "\<dots> = clonedBitmap ctx rect source p"
      using True by (simp add: clonedBitmap_def px py add.commute)
    finally show ?thesis .
  qed
  then have "bitmap (putImageData ctx \<lparr> img_width = ?w, img_height = ?h, img_data = ?out \<rparr> (ir_x rect) (ir_y rect))
        = clonedBitmap ctx rect source" by (rule ext)
  moreover have "putImageData ctx img dx dy = ctx \<lparr> bitmap := bitmap (putImageData ctx img dx dy) \<rparr>" for img dx dy
    by (simp add: putImageData_def)
  ultimately show ?thesis
    unfolding cf by metis
qed

lemma getSourceRect_shifted:
  assumes "withinCanvas ctx rect" and "0 \<le> ir_width rect" and "0 \<le> ir_height rect"
  shows "getSourceRect rect (canvas_width ctx) (canvas_height ctx) d
         = (if withinCanvas ctx (shiftedRect rect d) then Some (shiftedRect rect d) else None)"
  using assms by (cases d) (auto simp: getSourceRect_def shiftedRect_def withinCanvas_def Let_def)

lemma cloneLoop_find:
  assumes "withinCanvas ctx rect" and "0 \<le> ir_width rect" and "0 \<le> ir_height rect"
  shows "cloneLoop ctx rect ds
         = (case find (\<lambda>d. withinCanvas ctx (shiftedRect rect d)) ds of
              None \<Rightarrow> None
            | Some d \<Rightarrow> Some (cloneFrom ctx rect (shiftedRect rect d)))"
  by (induction ds) (simp_all add: getSourceRect_shifted [OF assms])

lemma shiftedRect_size: "ir_width (shiftedRect rect d) = ir_width rect" "ir_height (shiftedRect rect d) = ir_height rect"
  by (cases d; simp add: shiftedRect_def)+

text \<open>
  A resolved rectangle that passes the guard of \<open>renderTextOverlay\<close> lies within the
  canvas, so the hypotheses below hold of every rectangle \<open>applyBackground\<close> is given.
\<close>

lemma resolved_rect_withinCanvas:
  assumes "0 < ir_width (toIntRect r (canvas_width ctx) (canvas_height ctx))"
    and "0 < ir_height (toIntRect r (canvas_width ctx) (canvas_height ctx))"
  shows "withinCanvas ctx (toIntRect r (canvas_width ctx) (canvas_height ctx))"
  using assms
  by (auto simp: withinCanvas_def toIntRect_def clamp_def Let_def max_def min_def split: if_splits)

text \<open>
  C6. In clone mode with \<open>cloneDirection\<close> unset, \<open>applyBackground\<close> on a resolved
  rectangle clones from the first of up, down, left, right whose source rectangle (the
  rectangle shifted by its height, or width, plus 2) lies within the canvas.  When up is
  out of bounds and down is in bounds, the source has the size of the rectangle and starts
  at \<open>y = rect.y + rect.height + 2\<close>: every pixel \<open>p\<close> of the rectangle becomes the
  feathered blend of the pixel \<open>rect.height + 2\<close> below it with \<open>p\<close> itself.
\<close>

theorem clone_direction_order:
  assumes "backgroundMode overlay = Some Clone" and "cloneDirection overlay = None"
    and "withinCanvas ctx rect" and "0 < ir_width rect" and "0 < ir_height rect"
  shows "(\<forall>d. find (\<lambda>d. withinCanvas ctx (shiftedRect rect d)) [Up, Down, DirLeft, DirRight] = Some d
            \<longrightarrow> applyBackground ctx overlay rect
                = Inr (ctx \<lparr> bitmap := clonedBitmap ctx rect (shiftedRect rect d) \<rparr>))
       \<and> (\<not> withinCanvas ctx (shiftedRect rect Up) \<and> withinCanvas ctx (shiftedRect rect Down)
            \<longrightarrow> applyBackground ctx overlay rect
                = Inr (ctx \<lparr> bitmap := clonedBitmap ctx rect
                        \<lparr> ir_x = ir_x rect, ir_y = ir_y rect + ir_height rect + 2,
                          ir_width = ir_width rect, ir_height = ir_height rect \<rparr> \<rparr>)
              \<and> (\<forall>p. in_rect rect p \<longrightarrow>
                    clonedBitmap ctx rect
                        \<lparr> ir_x = ir_x rect, ir_y = ir_y rect + ir_height rect + 2,
                          ir_width = ir_width rect, ir_height = ir_height rect \<rparr> p
                    = blendRGBA (bitmap ctx (fst p, snd p + ir_height rect + 2)) (bitmap ctx p)
                        (featherAlpha rect (nat (fst p - ir_x rect)) (nat (snd p - ir_y rect)))))"
proof -
  have nn: "0 \<le> ir_width rect" "0 \<le> ir_height rect" using assms(4,5) by simp_all
  have ab: "applyBackground ctx overlay rect = cloneFrom ctx rect (shiftedRect rect d)"
    if "find (\<lambda>d. withinCanvas ctx (shiftedRect rect d)) [Up, Down, DirLeft, DirRight] = Some d" for d
    using that assms(1,2)
    by (simp add: applyBackground_def getCloneOrder_def Let_def cloneLoop_find [OF assms(3) nn]
        del: find.simps cloneLoop.simps)
  have cf: "cloneFrom ctx rect (shiftedRect rect d) = Inr (ctx \<lparr> bitmap := clonedBitmap ctx rect (shiftedRect rect d) \<rparr>)"
    if "withinCanvas ctx (shiftedRect rect d)" for d
    by (rule cloneFrom_result [OF assms(3,4,5) that shiftedRect_size])
  have first: "applyBackground ctx overlay rect = Inr (ctx \<lparr> bitmap := clonedBitmap ctx rect (shiftedRect rect d) \<rparr>)"
    if "find (\<lambda>d. withinCanvas ctx (shiftedRect rect d)) [Up, Down, DirLeft, DirRight] = Some d" for d
  proof -
    from that have "withinCanvas ctx (shiftedRect rect d)"
      by (auto split: if_splits)
    then show ?thesis using ab [OF that] cf by simp
  qed
  have down: "shiftedRect rect Down = \<lparr> ir_x = ir_x rect, ir_y = ir_y rect + ir_height rect + 2,
                          ir_width = ir_width rect, ir_height = ir_height rect \<rparr>"
    by (simp add: shiftedRect_def)
  have second: "applyBackground ctx overlay rect = Inr (ctx \<lparr> bitmap := clonedBitmap ctx rect (shiftedRect rect Down) \<rparr>)"
    if "\<not> withinCanvas ctx (shiftedRect rect Up)" and "withinCanvas ctx (shiftedRect rect Down)"
    using that by (intro first) simp
  have third: "clonedBitmap ctx rect (shiftedRect rect Down) p
        = blendRGBA (bitmap ctx (fst p, snd p + ir_height rect + 2)) (bitmap ctx p)
                        (featherAlpha rect (nat (fst p - ir_x rect)) (nat (snd p - ir_y rect)))"
    if "in_rect rect p" for p
    using that by (simp add: clonedBitmap_def down algebra_simps)
  show ?thesis
    using first second third unfolding down by blast
qed

lemma digitChar_hex:
  assumes "d < 16"
  shows "isHexDigit (digitChar d)" and "digitValue (digitChar d) = int d"
proof -
  from assms have "d = 0 \<or> d = 1 \<or> d = 2 \<or> d = 3 \<or> d = 4 \<or> d = 5 \<or> d = 6 \<or> d = 7 \<or> d = 8 \<or> d = 9
      \<or> d = 10 \<or> d = 11 \<or> d = 12 \<or> d = 13 \<or> d = 14 \<or> d = 15"
    by arith
  then show "isHexDigit (digitChar d)" and "digitValue (digitChar d) = int d"
    by (auto simp: digitChar_def isHexDigit_def isDigit_def digitValue_def)
qed

lemma toHex_byte:
  assumes "0 \<le> Math_round v" and "Math_round v \<le> 255"
  shows "toHex v = [digitChar (nat (Math_round v) div 16), digitChar (nat (Math_round v) mod 16)]"
proof -
  define n where "n = nat (Math_round v)"
  have n: "n < 256" and iv: "Math_round v = int n" using assms by (simp_all add: n_def)
  have "natToString 16 n = (if n < 16 then [digitChar n] else [digitChar (n div 16), digitChar (n mod 16)])"
  proof (cases "n < 16")
    case True
    then show ?thesis by (simp add: natToString.simps [of 16 n])
  next
    case False
    then have "n div 16 < 16" using n by simp
    then have "natToString 16 (n div 16) = [digitChar (n div 16)]"
      by (simp add: natToString.simps [of 16 "n div 16"])
    with False show ?thesis by (simp add: natToString.simps [of 16 n])
  qed
  moreover have "digitChar 0 = CHR ''0''" by (simp add: digitChar_def)
  ultimately show ?thesis
    unfolding toHex_def iv n_def [symmetric]
    by (simp add: intToString_def padStart_def)
qed

lemma hexByte_digits:
  assumes "n < 256"
  shows "hexByte (digitChar (n div 16)) (digitChar (n mod 16)) = word_of_int (int n)"
proof -
  have "n div 16 < 16" "n mod 16 < 16" using assms by simp_all
  then have "digitValue (digitChar (n div 16)) * 16 + digitValue (digitChar (n mod 16)) = int n"
    by (simp add: digitChar_hex(2) zdiv_int zmod_int)
  then show ?thesis by (simp add: hexByte_def)
qed

lemma parseColor_toHex:
  assumes "0 \<le> Math_round a" "Math_round a \<le> 255" "0 \<le> Math_round b" "Math_round b \<le> 255"
    "0 \<le> Math_round c" "Math_round c \<le> 255"
  shows "hex6 (CHR ''#'' # toHex a @ toHex b @ toHex c)"
    and "parseColor (CHR ''#'' # toHex a @ toHex b @ toHex c)
         = Some \<lparr> px_r = word_of_int (Math_round a), px_g = word_of_int (Math_round b),
                  px_b = word_of_int (Math_round c), px_a = 255 \<rparr>"
proof -
  have lt: "nat (Math_round a) < 256" "nat (Math_round b) < 256" "nat (Math_round c) < 256"
    using assms by simp_all
  have d16: "n div 16 < 16" "n mod 16 < 16" if "n < 256" for n :: nat
    using that by simp_all
  show h: "hex6 (CHR ''#'' # toHex a @ toHex b @ toHex c)"
    using lt by (simp add: hex6_def toHex_byte assms digitChar_hex(1) d16)
  show "parseColor (CHR ''#'' # toHex a @ toHex b @ toHex c)
         = Some \<lparr> px_r = word_of_int (Math_round a), px_g = word_of_int (Math_round b),
                  px_b = word_of_int (Math_round c), px_a = 255 \<rparr>"
    using h assms by (simp add: parseColor_def toHex_byte hexByte_digits [OF lt(1)] hexByte_digits [OF lt(2)]
        hexByte_digits [OF lt(3)])
qed

lemma trim_length_le: "length (trim s) \<le> length s"
  unfolding trim_def
  by (metis length_dropWhile_le length_rev order_trans)

lemma normalizeHexColor_hex6:
  assumes "hex6 fallback"
  shows "hex6 (normalizeHexColor v fallback)"
proof -
  have "hex6 [CHR ''#'', c ! 0, c ! 0, c ! 1, c ! 1, c ! 2, c ! 2]"
    if "length c = 3" and "list_all isHexDigit c" for c
  proof -
    from that have "isHexDigit (c ! 0)" "isHexDigit (c ! 1)" "isHexDigit (c ! 2)"
      by (simp_all add: list_all_length)
    then show ?thesis by (simp add: hex6_def)
  qed
  then show ?thesis
    using assms by (auto simp: normalizeHexColor_def Let_def hex3_def split: list.splits)
qed

lemma map_upt_quads:
  "map f [0..<4 * n] = concat (map (\<lambda>q. [f (4 * q), f (4 * q + 1), f (4 * q + 2), f (4 * q + 3)]) [0..<n])"
proof (induction n)
  case 0
  show ?case by simp
next
  case (Suc n)
  have e: "4 * Suc n = 4 * n + 4" by simp
  have a: "[0..<4 * n + 4] = [0..<4 * n] @ [4 * n..<4 * n + 4]"
    by (rule upt_add_eq_append) simp
  have b: "[m..<m + 4] = [m, m + 1, m + 2, m + 3]" for m :: nat
    by (simp add: upt_conv_Cons)
  show ?case using Suc unfolding e a b by simp
qed

lemma collect_loop_pixels:
  "collect_loop (concat (map (\<lambda>p. [px_r p, px_g p, px_b p, px_a p]) ps)) (r, g, b, n)
   = (r + (\<Sum>p\<leftarrow>ps. uint (px_r p)), g + (\<Sum>p\<leftarrow>ps. uint (px_g p)),
      b + (\<Sum>p\<leftarrow>ps. uint (px_b p)), n + int (length ps))"
  by (induction ps arbitrary: r g b n) (simp_all add: algebra_simps)

lemma collect_block:
  assumes "0 < w" and "0 < h"
    and "\<And>q. q < nat w * nat h \<Longrightarrow> in_canvas ctx (x + int (q mod nat w), y + int (q div nat w))"
  shows "collect ctx x y w h (r, g, b, n)
         = Inr (r + channelSum px_r ctx (map (\<lambda>q. (x + int (q mod nat w), y + int (q div nat w))) [0..<nat w * nat h]),
                g + channelSum px_g ctx (map (\<lambda>q. (x + int (q mod nat w), y + int (q div nat w))) [0..<nat w * nat h]),
                b + channelSum px_b ctx (map (\<lambda>q. (x + int (q mod nat w), y + int (q div nat w))) [0..<nat w * nat h]),
                n + int (nat w * nat h))"
proof -
  let ?pos = "\<lambda>q. (x + int (q mod nat w), y + int (q div nat w))"
  let ?P = "\<lambda>q. if in_canvas ctx (?pos q) then bitmap ctx (?pos q) else transparent_black"
  let ?f = "\<lambda>k. channel (?P (k div 4)) (k mod 4)"
  have g: "getImageData ctx x y w h
           = Inr \<lparr> img_width = w, img_height = h, img_data = map ?f [0..<4 * (nat w * nat h)] \<rparr>"
    using assms(1,2) by (simp add: getImageData_def Let_def mult.assoc)
  have q: "[?f (4 * q), ?f (4 * q + 1), ?f (4 * q + 2), ?f (4 * q + 3)]
           = [px_r (?P q), px_g (?P q), px_b (?P q), px_a (?P q)]" for q
  proof -
    have dm: "(4 * q) div 4 = q" "(4 * q) mod 4 = 0" "(4 * q + 1) div 4 = q" "(4 * q + 1) mod 4 = 1"
      "(4 * q + 2) div 4 = q" "(4 * q + 2) mod 4 = 2" "(4 * q + 3) div 4 = q" "(4 * q + 3) mod 4 = 3"
      by presburger+
    show ?thesis unfolding dm by (simp add: channel_def)
  qed
  have d: "map ?f [0..<4 * (nat w * nat h)]
           = concat (map (\<lambda>p. [px_r p, px_g p, px_b p, px_a p]) (map ?P [0..<nat w * nat h]))"
    unfolding map_upt_quads by (simp only: q map_map comp_def)
  have P: "map ?P [0..<nat w * nat h] = map (\<lambda>q. bitmap ctx (?pos q)) [0..<nat w * nat h]"
    using assms(3) by (intro map_cong) simp_all
  have cl: "collect_loop (map ?f [0..<4 * (nat w * nat h)]) (r, g, b, n)
      = (r + (\<Sum>p\<leftarrow>map (\<lambda>q. bitmap ctx (?pos q)) [0..<nat w * nat h]. uint (px_r p)),
         g + (\<Sum>p\<leftarrow>map (\<lambda>q. bitmap ctx (?pos q)) [0..<nat w * nat h]. uint (px_g p)),
         b + (\<Sum>p\<leftarrow>map (\<lambda>q. bitmap ctx (?pos q)) [0..<nat w * nat h]. uint (px_b p)),
         n + int (length (map (\<lambda>q. bitmap ctx (?pos q)) [0..<nat w * nat h])))"
    unfolding d P by (rule collect_loop_pixels)
  have cs: "(\<Sum>p\<leftarrow>map (\<lambda>q. bitmap ctx (?pos q)) qs. uint (sel p)) = channelSum sel ctx (map ?pos qs)"
    for sel :: "RGBA \<Rightarrow> 8 word" and qs
    by (simp add: channelSum_def comp_def)
  have "collect ctx x y w h (r, g, b, n) = Inr (collect_loop (map ?f [0..<4 * (nat w * nat h)]) (r, g, b, n))"
    using assms(1,2) by (simp add: collect_def bind_err_def g)
  then show ?thesis
    unfolding cl cs by simp
qed

lemma collect_column:
  assumes "0 < h" and "0 \<le> x" and "x < canvas_width ctx" and "0 \<le> y" and "y + h \<le> canvas_height ctx"
  shows "collect ctx x y 1 h (r, g, b, n)
         = Inr (r + channelSum px_r ctx (map (\<lambda>j. (x, y + int j)) [0..<nat h]),
                g + channelSum px_g ctx (map (\<lambda>j. (x, y + int j)) [0..<nat h]),
                b + channelSum px_b ctx (map (\<lambda>j. (x, y + int j)) [0..<nat h]),
                n + int (nat h))"
  using collect_block [of 1 h ctx x y r g b n] assms
  by (simp add: in_canvas_def)

lemma collect_row:
  assumes "0 < w" and "0 \<le> y" and "y < canvas_height ctx" and "0 \<le> x" and "x + w \<le> canvas_width ctx"
  shows "collect ctx x y w 1 (r, g, b, n)
         = Inr (r + channelSum px_r ctx (map (\<lambda>i. (x + int i, y)) [0..<nat w]),
                g + channelSum px_g ctx (map (\<lambda>i. (x + int i, y)) [0..<nat w]),
                b + channelSum px_b ctx (map (\<lambda>i. (x + int i, y)) [0..<nat w]),
                n + int (nat w))"
proof -
  have m: "map (\<lambda>q. (x + int (q mod nat w), y + int (q div nat w))) [0..<nat w]
         = map (\<lambda>i. (x + int i, y)) [0..<nat w]"
    by (intro map_cong) simp_all
  have c: "in_canvas ctx (x + int (q mod nat w), y + int (q div nat w))" if "q < nat w * nat 1" for q
    using that assms by (simp add: in_canvas_def)
  show ?thesis
    using collect_block [of w 1 ctx x y r g b n, OF assms(1) _ c] m by simp
qed

theorem clone_direction_order_witness:
  "backgroundMode ((sampleOverlay \<lparr> rect_x = 0, rect_y = 0, rect_width = 4, rect_height = 4 \<rparr> ''Hi'' 16)
       \<lparr> backgroundMode := Some Clone \<rparr>) = Some Clone
   \<and> withinCanvas (gradientCanvas 10 10) \<lparr> ir_x = 0, ir_y = 0, ir_width = 4, ir_height = 4 \<rparr>
   \<and> \<not> withinCanvas (gradientCanvas 10 10) (shiftedRect \<lparr> ir_x = 0, ir_y = 0, ir_width = 4, ir_height = 4 \<rparr> Up)
   \<and> withinCanvas (gradientCanvas 10 10) (shiftedRect \<lparr> ir_x = 0, ir_y = 0, ir_width = 4, ir_height = 4 \<rparr> Down)
   \<and> (\<exists>c. applyBackground (gradientCanvas 10 10)
             ((sampleOverlay \<lparr> rect_x = 0, rect_y = 0, rect_width = 4, rect_height = 4 \<rparr> ''Hi'' 16)
                \<lparr> backgroundMode := Some Clone \<rparr>)
             \<lparr> ir_x = 0, ir_y = 0, ir_width = 4, ir_height = 4 \<rparr> = Inr c
          \<and> bitmap c (1, 1) = \<lparr> px_r = 1, px_g = 7, px_b = 7, px_a = 255 \<rparr>
          \<and> bitmap c (1, 7) = \<lparr> px_r = 1, px_g = 7, px_b = 7, px_a = 255 \<rparr>)"
proof -
  let ?r = "\<lparr> ir_x = 0, ir_y = 0, ir_width = 4, ir_height = 4 \<rparr>"
  let ?ov = "(sampleOverlay \<lparr> rect_x = 0, rect_y = 0, rect_width = 4, rect_height = 4 \<rparr> ''Hi'' 16)
                \<lparr> backgroundMode := Some Clone \<rparr>"
  have m: "backgroundMode ?ov = Some Clone" and d: "cloneDirection ?ov = None"
    by (simp_all add: sampleOverlay_def)
  have w: "withinCanvas (gradientCanvas 10 10) ?r"
    by (simp add: withinCanvas_def gradientCanvas_def)
  have u: "\<not> withinCanvas (gradientCanvas 10 10) (shiftedRect ?r Up)"
    by (simp add: withinCanvas_def gradientCanvas_def shiftedRect_def)
  have dn: "withinCanvas (gradientCanvas 10 10) (shiftedRect ?r Down)"
    by (simp add: withinCanvas_def gradientCanvas_def shiftedRect_def)
  have a: "featherAlpha ?r (Suc 0) (Suc 0) = 73 / 75"
    by (simp add: featherAlpha_def clamp_def)
  have b: "blendRGBA (bitmap (gradientCanvas 10 10) (1, 7)) (bitmap (gradientCanvas 10 10) (1, 1)) (73 / 75)
           = \<lparr> px_r = 1, px_g = 7, px_b = 7, px_a = 255 \<rparr>"
    by (simp add: blendRGBA_def blendByte_def gradientCanvas_def Math_round_def clamp_def)
  from clone_direction_order [OF m d w] u dn
  have "applyBackground (gradientCanvas 10 10) ?ov ?r
        = Inr ((gradientCanvas 10 10) \<lparr> bitmap := clonedBitmap (gradientCanvas 10 10) ?r
             \<lparr> ir_x = 0, ir_y = 6, ir_width = 4, ir_height = 4 \<rparr> \<rparr>)"
    by (simp add: shiftedRect_def)
  moreover have "clonedBitmap (gradientCanvas 10 10) ?r \<lparr> ir_x = 0, ir_y = 6, ir_width = 4, ir_height = 4 \<rparr> (1, 1)
        = \<lparr> px_r = 1, px_g = 7, px_b = 7, px_a = 255 \<rparr>"
    unfolding clonedBitmap_def by (simp add: in_rect_def a b)
  moreover have "clonedBitmap (gradientCanvas 10 10) ?r \<lparr> ir_x = 0, ir_y = 6, ir_width = 4, ir_height = 4 \<rparr> (1, 7)
        = \<lparr> px_r = 1, px_g = 7, px_b = 7, px_a = 255 \<rparr>"
    unfolding clonedBitmap_def by (simp add: in_rect_def gradientCanvas_def)
  ultimately show ?thesis
    using m w u dn by simp
qed

section \<open>The neighbour average\<close>

lemma channelSum_append: "channelSum sel ctx (a @ b) = channelSum sel ctx a + channelSum sel ctx b"
  by (simp add: channelSum_def)

lemma channelSum_Nil: "channelSum sel ctx [] = 0"
  by (simp add: channelSum_def)

lemma strip_column:
  assumes "0 < h" and "0 \<le> y" and "y + h \<le> canvas_height ctx"
    and "c \<Longrightarrow> 0 \<le> x \<and> x < canvas_width ctx"
  shows "(if c then collect ctx x y 1 h (r, g, b, n) else Inr (r, g, b, n))
         = Inr (r + channelSum px_r ctx (if c then map (\<lambda>j. (x, y + int j)) [0..<nat h] else []),
                g + channelSum px_g ctx (if c then map (\<lambda>j. (x, y + int j)) [0..<nat h] else []),
                b + channelSum px_b ctx (if c then map (\<lambda>j. (x, y + int j)) [0..<nat h] else []),
                n + int (length (if c then map (\<lambda>j. (x, y + int j)) [0..<nat h] else [])))"
proof (cases c)
  case True
  with assms(4) have "0 \<le> x" "x < canvas_width ctx" by simp_all
  from collect_column [OF assms(1) this assms(2,3)] True show ?thesis by simp
next
  case False
  then show ?thesis by (simp add: channelSum_Nil)
qed

lemma strip_row:
  assumes "0 < w" and "0 \<le> x" and "x + w \<le> canvas_width ctx"
    and "c \<Longrightarrow> 0 \<le> y \<and> y < canvas_height ctx"
  shows "(if c then collect ctx x y w 1 (r, g, b, n) else Inr (r, g, b, n))
         = Inr (r + channelSum px_r ctx (if c then map (\<lambda>i. (x + int i, y)) [0..<nat w] else []),
                g + channelSum px_g ctx (if c then map (\<lambda>i. (x + int i, y)) [0..<nat w] else []),
                b + channelSum px_b ctx (if c then map (\<lambda>i. (x + int i, y)) [0..<nat w] else []),
                n + int (length (if c then map (\<lambda>i. (x + int i, y)) [0..<nat w] else [])))"
proof (cases c)
  case True
  with assms(4) have "0 \<le> y" "y < canvas_height ctx" by simp_all
  from collect_row [OF assms(1) this assms(2,3)] True show ?thesis by simp
next
  case False
  then show ?thesis by (simp add: channelSum_Nil)
qed

lemma getAverageNeighborColor_mean:
  assumes "withinCanvas ctx rect" and "0 < ir_width rect" and "0 < ir_height rect"
  shows "getAverageNeighborColor ctx rect fallback
         = Inr (if neighbourPixels ctx rect = [] then fallback
                else CHR ''#'' # toHex (channelMean px_r ctx (neighbourPixels ctx rect))
                     @ toHex (channelMean px_g ctx (neighbourPixels ctx rect))
                     @ toHex (channelMean px_b ctx (neighbourPixels ctx rect)))"
proof -
  let ?x = "ir_x rect" and ?y = "ir_y rect" and ?w = "ir_width rect" and ?h = "ir_height rect"
  have b: "0 \<le> ?x" "0 \<le> ?y" "?x + ?w \<le> canvas_width ctx" "?y + ?h \<le> canvas_height ctx"
    using assms(1) by (simp_all add: withinCanvas_def)
  define L where "L = (if ?x > 0 then map (\<lambda>j. (?x - 1, ?y + int j)) [0..<nat ?h] else [])"
  define R where "R = (if ?x + ?w < canvas_width ctx then map (\<lambda>j. (?x + ?w, ?y + int j)) [0..<nat ?h] else [])"
  define T where "T = (if ?y > 0 then map (\<lambda>i. (?x + int i, ?y - 1)) [0..<nat ?w] else [])"
  define B where "B = (if ?y + ?h < canvas_height ctx then map (\<lambda>i. (?x + int i, ?y + ?h)) [0..<nat ?w] else [])"
  have np: "neighbourPixels ctx rect = L @ R @ T @ B"
    by (simp add: neighbourPixels_def L_def R_def T_def B_def)
  define add :: "(int \<times> int) list \<Rightarrow> int \<times> int \<times> int \<times> int \<Rightarrow> int \<times> int \<times> int \<times> int"
    where "add S acc = (case acc of (r, g, b', n) \<Rightarrow>
      (r + channelSum px_r ctx S, g + channelSum px_g ctx S, b' + channelSum px_b ctx S, n + int (length S)))"
    for S acc
  have s1: "(if ?x > 0 then collect ctx (?x - 1) ?y 1 ?h acc else Inr acc) = Inr (add L acc)" for acc
  proof -
    obtain r g b' n where a: "acc = (r, g, b', n)" by (cases acc)
    show ?thesis
      unfolding a add_def L_def prod.case using b assms(2) by (intro strip_column [OF assms(3)]) simp_all
  qed
  have s2: "(if ?x + ?w < canvas_width ctx then collect ctx (?x + ?w) ?y 1 ?h acc else Inr acc) = Inr (add R acc)"
    for acc
  proof -
    obtain r g b' n where a: "acc = (r, g, b', n)" by (cases acc)
    show ?thesis
      unfolding a add_def R_def prod.case using b assms(2) by (intro strip_column [OF assms(3)]) simp_all
  qed
  have s3: "(if ?y > 0 then collect ctx ?x (?y - 1) ?w 1 acc else Inr acc) = Inr (add T acc)" for acc
  proof -
    obtain r g b' n where a: "acc = (r, g, b', n)" by (cases acc)
    show ?thesis
      unfolding a add_def T_def prod.case using b assms(3) by (intro strip_row [OF assms(2)]) simp_all
  qed
  have s4: "(if ?y + ?h < canvas_height ctx then collect ctx ?x (?y + ?h) ?w 1 acc else Inr acc) = Inr (add B acc)"
    for acc
  proof -
    obtain r g b' n where a: "acc = (r, g, b', n)" by (cases acc)
    show ?thesis
      unfolding a add_def B_def prod.case using b assms(3) by (intro strip_row [OF assms(2)]) simp_all
  qed
  have chain: "add B (add T (add R (add L (0, 0, 0, 0))))
      = (channelSum px_r ctx (L @ R @ T @ B), channelSum px_g ctx (L @ R @ T @ B),
         channelSum px_b ctx (L @ R @ T @ B), int (length (L @ R @ T @ B)))"
    by (simp add: add_def channelSum_append)
  have e: "getAverageNeighborColor ctx rect fallback
      = (let r = channelSum px_r ctx (L @ R @ T @ B); g = channelSum px_g ctx (L @ R @ T @ B);
             b' = channelSum px_b ctx (L @ R @ T @ B); n = int (length (L @ R @ T @ B))
         in if n = 0 then Inr fallback
            else Inr (CHR ''#'' # toHex (real_of_int r / real_of_int n) @ toHex (real_of_int g / real_of_int n)
                      @ toHex (real_of_int b' / real_of_int n)))"
    unfolding getAverageNeighborColor_def Let_def s1 s2 s3 s4 bind_err_def sum.case chain prod.case ..
  have g: "(let r = channelSum px_r ctx ps; g = channelSum px_g ctx ps;
             b' = channelSum px_b ctx ps; n = int (length ps)
         in if n = 0 then Inr fallback
            else Inr (CHR ''#'' # toHex (real_of_int r / real_of_int n) @ toHex (real_of_int g / real_of_int n)
                      @ toHex (real_of_int b' / real_of_int n)))
      = (Inr (if ps = [] then fallback
                else CHR ''#'' # toHex (channelMean px_r ctx ps)
                     @ toHex (channelMean px_g ctx ps)
                     @ toHex (channelMean px_b ctx ps)) :: dom_error + string)" for ps
    by (simp add: Let_def channelMean_def)
  show ?thesis
    unfolding e np by (rule g)
qed

lemma channelSum_bounds: "0 \<le> channelSum sel ctx ps \<and> channelSum sel ctx ps \<le> 255 * int (length ps)"
proof (induction ps)
  case Nil
  show ?case by (simp add: channelSum_def)
next
  case (Cons p ps)
  have "uint (sel (bitmap ctx p)) < 2 ^ 8"
    using uint_lt2p [of "sel (bitmap ctx p)"] by simp
  then have "uint (sel (bitmap ctx p)) \<le> 255" by simp
  moreover have "0 \<le> uint (sel (bitmap ctx p))" by simp
  ultimately show ?case using Cons by (simp add: channelSum_def)
qed

lemma channelMean_round:
  assumes "ps \<noteq> []"
  shows "0 \<le> Math_round (channelMean sel ctx ps)" and "Math_round (channelMean sel ctx ps) \<le> 255"
proof -
  have n: "0 < real (length ps)" using assms by simp
  from channelSum_bounds [of sel ctx ps]
  have a: "0 \<le> channelSum sel ctx ps" and b: "channelSum sel ctx ps \<le> 255 * int (length ps)"
    by blast+
  have a': "0 \<le> real_of_int (channelSum sel ctx ps)"
    using a by simp
  have "real_of_int (channelSum sel ctx ps) \<le> real_of_int (255 * int (length ps))"
    using b by (simp only: of_int_le_iff)
  then have b': "real_of_int (channelSum sel ctx ps) \<le> 255 * real (length ps)"
    by simp
  have "0 \<le> channelMean sel ctx ps"
    unfolding channelMean_def using a' n by simp
  moreover have "channelMean sel ctx ps \<le> 255"
    unfolding channelMean_def using b' n by (simp add: divide_le_eq)
  ultimately have "0 \<le> channelMean sel ctx ps" and "channelMean sel ctx ps \<le> 255"
    by blast+
  then show "0 \<le> Math_round (channelMean sel ctx ps)" and "Math_round (channelMean sel ctx ps) \<le> 255"
    unfolding Math_round_def by linarith+
qed

lemma hex6_ends:
  assumes "hex6 v"
  shows "\<not> isWhiteSpace (hd v)" and "\<not> isWhiteSpace (last v)" and "v \<noteq> []"
proof -
  from assms obtain cs where v: "v = CHR ''#'' # cs" and l: "length cs = 6" and h: "list_all isHexDigit cs"
    by (auto simp: hex6_def split: list.splits)
  show "v \<noteq> []" using v by simp
  show "\<not> isWhiteSpace (hd v)" using v by (simp add: isWhiteSpace_def)
  have "cs \<noteq> []" using l by auto
  then have "last v = last cs" and "last cs \<in> set cs" using v by simp_all
  with h have "isHexDigit (last v)" by (simp add: list_all_iff)
  then show "\<not> isWhiteSpace (last v)"
    by (auto simp: isHexDigit_def isWhiteSpace_def)
qed

lemma trim_hex6: "hex6 v \<Longrightarrow> trim v = v"
proof -
  assume h: "hex6 v"
  have a: "dropWhile isWhiteSpace v = v"
    using hex6_ends(1,3) [OF h] by (cases v) simp_all
  have "hd (rev v) = last v" using hex6_ends(3) [OF h] by (simp add: hd_rev)
  moreover obtain c cs where r: "rev v = c # cs"
    using hex6_ends(3) [OF h] by (cases "rev v") auto
  ultimately have "\<not> isWhiteSpace c"
    using hex6_ends(2) [OF h] by simp
  then have b: "dropWhile isWhiteSpace (rev v) = rev v"
    by (simp add: r)
  show ?thesis by (simp add: trim_def a b)
qed

lemma normalizeHexColor_id: "hex6 v \<Longrightarrow> normalizeHexColor v fallback = v"
  by (simp add: normalizeHexColor_def trim_hex6)

lemma hex6_white: "hex6 ''#ffffff''"
  by (simp add: hex6_def isHexDigit_def)

lemma parseColor_hex6: "hex6 s \<Longrightarrow> \<exists>c. parseColor s = Some c"
  by (simp add: parseColor_def)

lemma fill_with:
  assumes "parseColor s = Some c" and "withinCanvas ctx rect" and "0 \<le> ir_width rect" and "0 \<le> ir_height rect"
  shows "fillRect (set_fillStyle ctx s) (ir_x rect) (ir_y rect) (ir_width rect) (ir_height rect)
         = ctx \<lparr> fillStyle := c, bitmap := (\<lambda>p. if in_rect rect p \<and> clipRegion ctx p then c else bitmap ctx p) \<rparr>"
proof -
  have "(in_canvas (ctx \<lparr> fillStyle := c \<rparr>) p \<and> clipRegion ctx p
          \<and> in_rect \<lparr> ir_x = min (ir_x rect) (ir_x rect + ir_width rect),
                       ir_y = min (ir_y rect) (ir_y rect + ir_height rect),
                       ir_width = \<bar>ir_width rect\<bar>, ir_height = \<bar>ir_height rect\<bar> \<rparr> p)
        = (in_rect rect p \<and> clipRegion ctx p)" for p
    using assms(2,3,4) by (auto simp: in_rect_def in_canvas_def withinCanvas_def min_def)
  then show ?thesis
    by (simp add: fillRect_def set_fillStyle_def assms(1) cong: if_cong)
qed

lemma strips_empty:
  assumes "withinCanvas ctx rect" and "0 < ir_width rect" and "0 < ir_height rect"
  shows "neighbourPixels ctx rect = [] \<longleftrightarrow>
         ir_x rect = 0 \<and> ir_y rect = 0 \<and> ir_width rect = canvas_width ctx \<and> ir_height rect = canvas_height ctx"
  using assms by (auto simp: neighbourPixels_def withinCanvas_def)

lemma cloneLoop_none:
  assumes "withinCanvas ctx rect" and "0 \<le> ir_width rect" and "0 \<le> ir_height rect"
    and "\<forall>d\<in>set ds. \<not> withinCanvas ctx (shiftedRect rect d)"
  shows "cloneLoop ctx rect ds = None"
  using assms(4) by (induction ds) (simp_all add: getSourceRect_shifted [OF assms(1,2,3)])

text \<open>
  C7. In clone mode on a resolved rectangle, when no candidate direction has its source
  rectangle within the canvas, \<open>applyBackground\<close> returns without error and fills the
  rectangle (under the clip region in force) with one colour.  That colour is the
  per-channel mean, rounded, of all pixels of the one-pixel strips just outside the
  edges of the rectangle that lie on the canvas; \<open>getAverageNeighborColor\<close> returns it as
  \<open>#\<close> and six hex digits.  There is no such pixel exactly when the rectangle spans the
  whole canvas, and then the colour is the overlay's background colour as normalised by
  \<open>normalizeHexColor\<close> (itself, when it is a well-formed six-digit colour).
\<close>

theorem neighbour_average_fallback:
  assumes "backgroundMode overlay = Some Clone"
    and "withinCanvas ctx rect" and "0 < ir_width rect" and "0 < ir_height rect"
    and "\<forall>d\<in>set (getCloneOrder (cloneDirection overlay)). \<not> withinCanvas ctx (shiftedRect rect d)"
  shows "\<exists>fill. applyBackground ctx overlay rect
           = Inr (ctx \<lparr> fillStyle := fill,
                        bitmap := (\<lambda>p. if in_rect rect p \<and> clipRegion ctx p then fill else bitmap ctx p) \<rparr>)
         \<and> (if neighbourPixels ctx rect = []
            then parseColor (normalizeHexColor
                   (if backgroundColor overlay = [] then ''#ffffff'' else backgroundColor overlay) ''#ffffff'')
                 = Some fill
            else fill = meanColour ctx (neighbourPixels ctx rect)
               \<and> getAverageNeighborColor ctx rect (normalizeHexColor
                   (if backgroundColor overlay = [] then ''#ffffff'' else backgroundColor overlay) ''#ffffff'')
                 = Inr (CHR ''#'' # toHex (channelMean px_r ctx (neighbourPixels ctx rect))
                          @ toHex (channelMean px_g ctx (neighbourPixels ctx rect))
                          @ toHex (channelMean px_b ctx (neighbourPixels ctx rect)))
               \<and> hex6 (CHR ''#'' # toHex (channelMean px_r ctx (neighbourPixels ctx rect))
                          @ toHex (channelMean px_g ctx (neighbourPixels ctx rect))
                          @ toHex (channelMean px_b ctx (neighbourPixels ctx rect))))
         \<and> (neighbourPixels ctx rect = [] \<longleftrightarrow>
              ir_x rect = 0 \<and> ir_y rect = 0 \<and> ir_width rect = canvas_width ctx
              \<and> ir_height rect = canvas_height ctx)
         \<and> (hex6 (backgroundColor overlay) \<longrightarrow>
              normalizeHexColor
                (if backgroundColor overlay = [] then ''#ffffff'' else backgroundColor overlay) ''#ffffff''
              = backgroundColor overlay)"
proof -
  let ?fb = "normalizeHexColor
               (if backgroundColor overlay = [] then ''#ffffff'' else backgroundColor overlay) ''#ffffff''"
  let ?ps = "neighbourPixels ctx rect"
  let ?hex = "CHR ''#'' # toHex (channelMean px_r ctx ?ps) @ toHex (channelMean px_g ctx ?ps)
                @ toHex (channelMean px_b ctx ?ps)"
  have nn: "0 \<le> ir_width rect" "0 \<le> ir_height rect" using assms(3,4) by simp_all
  have none: "cloneLoop ctx rect (getCloneOrder (cloneDirection overlay)) = None"
    by (rule cloneLoop_none [OF assms(2) nn assms(5)])
  have avg: "getAverageNeighborColor ctx rect ?fb = Inr (if ?ps = [] then ?fb else ?hex)"
    by (rule getAverageNeighborColor_mean [OF assms(2,3,4)])
  have ab: "applyBackground ctx overlay rect
        = Inr (fillRect (set_fillStyle ctx (if ?ps = [] then ?fb else ?hex))
                 (ir_x rect) (ir_y rect) (ir_width rect) (ir_height rect))"
    using assms(1) by (simp add: applyBackground_def Let_def none avg bind_err_def)
  have idc: "hex6 (backgroundColor overlay) \<Longrightarrow> ?fb = backgroundColor overlay"
    using hex6_ends(3) [of "backgroundColor overlay"] by (simp add: normalizeHexColor_id)
  show ?thesis
  proof (cases "?ps = []")
    case True
    obtain c where c: "parseColor ?fb = Some c"
      using parseColor_hex6 [OF normalizeHexColor_hex6 [OF hex6_white]] by blast
    have "applyBackground ctx overlay rect
        = Inr (ctx \<lparr> fillStyle := c,
                     bitmap := (\<lambda>p. if in_rect rect p \<and> clipRegion ctx p then c else bitmap ctx p) \<rparr>)"
      unfolding ab using True fill_with [OF c assms(2) nn] by simp
    then show ?thesis
      using True c idc strips_empty [OF assms(2,3,4)] by auto
  next
    case False
    have h: "hex6 ?hex" and p: "parseColor ?hex = Some (meanColour ctx ?ps)"
      unfolding meanColour_def
      by (rule parseColor_toHex; rule channelMean_round [OF False])+
    have "applyBackground ctx overlay rect
        = Inr (ctx \<lparr> fillStyle := meanColour ctx ?ps,
                     bitmap := (\<lambda>p. if in_rect rect p \<and> clipRegion ctx p then meanColour ctx ?ps
                                     else bitmap ctx p) \<rparr>)"
      unfolding ab using False fill_with [OF p assms(2) nn] by simp
    then show ?thesis
      using False h avg idc strips_empty [OF assms(2,3,4)] by auto
  qed
qed


theorem neighbour_average_fallback_witness:
  "withinCanvas (gradientCanvas 4 4) \<lparr> ir_x = 0, ir_y = 0, ir_width = 4, ir_height = 3 \<rparr>
   \<and> \<not> withinCanvas (gradientCanvas 4 4) (shiftedRect \<lparr> ir_x = 0, ir_y = 0, ir_width = 4, ir_height = 3 \<rparr> Up)
   \<and> \<not> withinCanvas (gradientCanvas 4 4) (shiftedRect \<lparr> ir_x = 0, ir_y = 0, ir_width = 4, ir_height = 3 \<rparr> Down)
   \<and> \<not> withinCanvas (gradientCanvas 4 4) (shiftedRect \<lparr> ir_x = 0, ir_y = 0, ir_width = 4, ir_height = 3 \<rparr> DirLeft)
   \<and> \<not> withinCanvas (gradientCanvas 4 4) (shiftedRect \<lparr> ir_x = 0, ir_y = 0, ir_width = 4, ir_height = 3 \<rparr> DirRight)
   \<and> neighbourPixels (gradientCanvas 4 4) \<lparr> ir_x = 0, ir_y = 0, ir_width = 4, ir_height = 3 \<rparr>
       = [(0, 3), (1, 3), (2, 3), (3, 3)]
   \<and> (\<exists>c. applyBackground (gradientCanvas 4 4)
             ((sampleOverlay \<lparr> rect_x = 0, rect_y = 0, rect_width = 4, rect_height = 3 \<rparr> ''Hi'' 16)
                \<lparr> backgroundMode := Some Clone \<rparr>)
             \<lparr> ir_x = 0, ir_y = 0, ir_width = 4, ir_height = 3 \<rparr> = Inr c
          \<and> bitmap c (1, 1) = \<lparr> px_r = 2, px_g = 3, px_b = 7, px_a = 255 \<rparr>
          \<and> bitmap c (1, 3) = \<lparr> px_r = 1, px_g = 3, px_b = 7, px_a = 255 \<rparr>)"
proof -
  let ?r = "\<lparr> ir_x = 0, ir_y = 0, ir_width = 4, ir_height = 3 \<rparr>"
  let ?c = "gradientCanvas 4 4"
  let ?ov = "(sampleOverlay \<lparr> rect_x = 0, rect_y = 0, rect_width = 4, rect_height = 3 \<rparr> ''Hi'' 16)
                \<lparr> backgroundMode := Some Clone \<rparr>"
  have m: "backgroundMode ?ov = Some Clone"
    by (simp add: sampleOverlay_def)
  have w: "withinCanvas ?c ?r"
    by (simp add: withinCanvas_def gradientCanvas_def)
  have d: "\<forall>d\<in>set [Up, Down, DirLeft, DirRight]. \<not> withinCanvas ?c (shiftedRect ?r d)"
    by (simp add: withinCanvas_def gradientCanvas_def shiftedRect_def)
  then have d': "\<forall>d\<in>set (getCloneOrder (cloneDirection ?ov)). \<not> withinCanvas ?c (shiftedRect ?r d)"
    by (simp add: getCloneOrder_def sampleOverlay_def)
  have u: "[0..<4] = [0, 1, 2, Suc 2]"
    by (simp add: upt_rec)
  have n: "neighbourPixels ?c ?r = [(0, 3), (1, 3), (2, 3), (3, 3)]"
    by (simp add: neighbourPixels_def gradientCanvas_def u)
  have mc: "meanColour ?c [(0, 3), (1, 3), (2, 3), (3, 3)] = \<lparr> px_r = 2, px_g = 3, px_b = 7, px_a = 255 \<rparr>"
    by (simp add: meanColour_def channelMean_def channelSum_def gradientCanvas_def Math_round_def)
  from neighbour_average_fallback [OF m w _ _ d']
  obtain fill where a: "applyBackground ?c ?ov ?r
           = Inr (?c \<lparr> fillStyle := fill,
                        bitmap := (\<lambda>p. if in_rect ?r p \<and> clipRegion ?c p then fill else bitmap ?c p) \<rparr>)"
    and f: "fill = meanColour ?c (neighbourPixels ?c ?r)"
    unfolding n by auto
  have "bitmap (?c \<lparr> fillStyle := fill,
                        bitmap := (\<lambda>p. if in_rect ?r p \<and> clipRegion ?c p then fill else bitmap ?c p) \<rparr>) (1, 1)
        = \<lparr> px_r = 2, px_g = 3, px_b = 7, px_a = 255 \<rparr>"
    by (simp add: f n mc in_rect_def) (simp add: gradientCanvas_def)
  moreover have "bitmap (?c \<lparr> fillStyle := fill,
                        bitmap := (\<lambda>p. if in_rect ?r p \<and> clipRegion ?c p then fill else bitmap ?c p) \<rparr>) (1, 3)
        = \<lparr> px_r = 1, px_g = 3, px_b = 7, px_a = 255 \<rparr>"
    by (simp add: in_rect_def) (simp add: gradientCanvas_def)
  ultimately show ?thesis
    using w d n a by simp
qed

section \<open>Nothing is painted outside the resolved rectangle\<close>

lemma collect_ok: "\<exists>acc'. collect ctx x y w h acc = Inr acc'"
proof (cases "w \<le> 0 \<or> h \<le> 0")
  case True
  then have "collect ctx x y w h acc = Inr acc"
    by (simp add: collect_def)
  then show ?thesis by blast
next
  case False
  then obtain img where "getImageData ctx x y w h = Inr img"
    using getImageData_ok [of w h ctx x y] by auto
  with False have "collect ctx x y w h acc = Inr (collect_loop (img_data img) acc)"
    by (simp add: collect_def bind_err_def)
  then show ?thesis by blast
qed

lemma getAverageNeighborColor_ok: "\<exists>s. getAverageNeighborColor ctx rect fallback = Inr s"
proof -
  have step: "\<exists>acc'. (if c then collect ctx x y w h acc else Inr acc) = Inr acc'" for c x y w h acc
  proof (cases c)
    case True
    then show ?thesis using collect_ok [of ctx x y w h acc] by simp
  next
    case False
    then have "(if c then collect ctx x y w h acc else Inr acc) = Inr acc" by simp
    then show ?thesis by (rule exI)
  qed
  obtain a1 where a1: "(if ir_x rect > 0 then collect ctx (ir_x rect - 1) (ir_y rect) 1 (ir_height rect) (0, 0, 0, 0)
                else Inr (0, 0, 0, 0)) = Inr a1"
    using step by blast
  obtain a2 where a2: "(if ir_x rect + ir_width rect < canvas_width ctx
                then collect ctx (ir_x rect + ir_width rect) (ir_y rect) 1 (ir_height rect) a1
                else Inr a1) = Inr a2"
    using step by blast
  obtain a3 where a3: "(if ir_y rect > 0 then collect ctx (ir_x rect) (ir_y rect - 1) (ir_width rect) 1 a2
                else Inr a2) = Inr a3"
    using step by blast
  obtain a4 where a4: "(if ir_y rect + ir_height rect < canvas_height ctx
                then collect ctx (ir_x rect) (ir_y rect + ir_height rect) (ir_width rect) 1 a3
                else Inr a3) = Inr a4"
    using step by blast
  obtain r g b n where t: "a4 = (r, g, b, n)" by (cases a4)
  show ?thesis
    unfolding getAverageNeighborColor_def Let_def a1 bind_err_def sum.case a2 a3 a4 t prod.case
    by simp
qed

lemma fillRect_frame:
  assumes "0 \<le> ir_width rect" and "0 \<le> ir_height rect" and "\<not> in_rect rect p"
  shows "bitmap (fillRect (set_fillStyle ctx s) (ir_x rect) (ir_y rect) (ir_width rect) (ir_height rect)) p
         = bitmap ctx p"
proof -
  have "\<not> in_rect \<lparr> ir_x = min (ir_x rect) (ir_x rect + ir_width rect),
                     ir_y = min (ir_y rect) (ir_y rect + ir_height rect),
                     ir_width = \<bar>ir_width rect\<bar>, ir_height = \<bar>ir_height rect\<bar> \<rparr> p"
    using assms by (simp add: in_rect_normal) (simp add: in_rect_def)
  then show ?thesis
    by (simp add: fillRect_def bitmap_set_fillStyle)
qed

lemma cloneFrom_frame:
  assumes "0 < ir_width rect" and "0 < ir_height rect"
  shows "\<exists>c. cloneFrom ctx rect source = Inr c \<and> (\<forall>p. \<not> in_rect rect p \<longrightarrow> bitmap c p = bitmap ctx p)"
proof -
  let ?w = "ir_width rect" and ?h = "ir_height rect"
  obtain S where S: "getImageData ctx (ir_x source) (ir_y source) ?w ?h = Inr S"
    using getImageData_ok [OF assms] by blast
  obtain T where T: "getImageData ctx (ir_x rect) (ir_y rect) ?w ?h = Inr T"
    and lT: "length (img_data T) = 4 * nat ?w * nat ?h"
    using getImageData_ok [OF assms] by blast
  let ?out = "blendLoop (img_data S) (img_data T) rect (img_data T)"
  have "length ?out = 4 * nat ?w * nat ?h"
    by (simp add: length_blendLoop lT)
  then have "int (length ?out) = 4 * ?w * ?h" using assms by simp
  then have N: "newImageData ?out ?w ?h = Inr \<lparr> img_width = ?w, img_height = ?h, img_data = ?out \<rparr>"
    using assms by (simp add: newImageData_def)
  have cf: "cloneFrom ctx rect source
        = Inr (putImageData ctx \<lparr> img_width = ?w, img_height = ?h, img_data = ?out \<rparr> (ir_x rect) (ir_y rect))"
    by (simp add: cloneFrom_def bind_err_def S T N)
  have "bitmap (putImageData ctx \<lparr> img_width = ?w, img_height = ?h, img_data = ?out \<rparr> (ir_x rect) (ir_y rect)) p
        = bitmap ctx p" if "\<not> in_rect rect p" for p
    using that by (auto simp: putImageData_def in_rect_def)
  then show ?thesis unfolding cf by blast
qed

lemma cloneLoop_frame:
  assumes "0 < ir_width rect" and "0 < ir_height rect" and "cloneLoop ctx rect ds = Some res"
  shows "\<exists>c. res = Inr c \<and> (\<forall>p. \<not> in_rect rect p \<longrightarrow> bitmap c p = bitmap ctx p)"
  using assms(3)
proof (induction ds)
  case Nil
  then show ?case by simp
next
  case (Cons d ds)
  show ?case
  proof (cases "getSourceRect rect (canvas_width ctx) (canvas_height ctx) d")
    case None
    with Cons show ?thesis by simp
  next
    case (Some source)
    with Cons.prems have "res = cloneFrom ctx rect source" by simp
    then show ?thesis using cloneFrom_frame [OF assms(1,2)] by simp
  qed
qed

lemma applyBackground_frame:
  assumes "0 < ir_width rect" and "0 < ir_height rect"
  shows "\<exists>c. applyBackground ctx overlay rect = Inr c \<and> (\<forall>p. \<not> in_rect rect p \<longrightarrow> bitmap c p = bitmap ctx p)"
proof -
  have nn: "0 \<le> ir_width rect" "0 \<le> ir_height rect" using assms by simp_all
  let ?fb = "normalizeHexColor
               (if backgroundColor overlay = [] then ''#ffffff'' else backgroundColor overlay) ''#ffffff''"
  show ?thesis
  proof (cases "(case backgroundMode overlay of None \<Rightarrow> Solid | Some m \<Rightarrow> m) = Solid")
    case True
    then have "applyBackground ctx overlay rect
        = Inr (fillRect (set_fillStyle ctx ?fb) (ir_x rect) (ir_y rect) (ir_width rect) (ir_height rect))"
      by (simp add: applyBackground_def Let_def)
    then show ?thesis using fillRect_frame [OF nn] by blast
  next
    case False
    show ?thesis
    proof (cases "cloneLoop ctx rect (getCloneOrder (cloneDirection overlay))")
      case (Some res)
      with False have "applyBackground ctx overlay rect = res"
        by (simp add: applyBackground_def Let_def)
      then show ?thesis using cloneLoop_frame [OF assms Some] by simp
    next
      case None
      obtain s where s: "getAverageNeighborColor ctx rect ?fb = Inr s"
        using getAverageNeighborColor_ok by blast
      from None False have "applyBackground ctx overlay rect
        = Inr (fillRect (set_fillStyle ctx s) (ir_x rect) (ir_y rect) (ir_width rect) (ir_height rect))"
        by (simp add: applyBackground_def Let_def s bind_err_def)
      then show ?thesis using fillRect_frame [OF nn] by blast
    qed
  qed
qed

text \<open>
  C8. For every host, overlay and starting canvas, \<open>renderTextOverlay\<close> returns without
  error and leaves every pixel outside the resolved rectangle as it was: the background
  is written inside the rectangle only, and every glyph is painted under a clip region
  that is the rectangle.
\<close>

theorem render_clip_containment:
  "\<exists>c. renderTextOverlay host ctx overlay = Inr c
       \<and> (\<forall>p. \<not> in_rect (toIntRect (ov_rect overlay) (canvas_width ctx) (canvas_height ctx)) p
               \<longrightarrow> bitmap c p = bitmap ctx p)"
proof -
  let ?rect = "toIntRect (ov_rect overlay) (canvas_width ctx) (canvas_height ctx)"
  show ?thesis
  proof (cases "ir_width ?rect \<le> 0 \<or> ir_height ?rect \<le> 0")
    case True
    then have "renderTextOverlay host ctx overlay = Inr ctx"
      by (simp add: renderTextOverlay_def Let_def)
    then show ?thesis by simp
  next
    case False
    then have pos: "0 < ir_width ?rect" "0 < ir_height ?rect" by simp_all
    then have nn: "0 \<le> ir_width ?rect" "0 \<le> ir_height ?rect" by simp_all
    obtain c1 where c1: "applyBackground ctx overlay ?rect = Inr c1"
      and f1: "\<forall>p. \<not> in_rect ?rect p \<longrightarrow> bitmap c1 p = bitmap ctx p"
      using applyBackground_frame [OF pos] by blast
    have "renderTextOverlay host ctx overlay = Inr (drawText host c1 overlay ?rect)"
      using False by (simp add: renderTextOverlay_def Let_def c1 bind_err_def)
    moreover have "bitmap (drawText host c1 overlay ?rect) p = bitmap ctx p" if "\<not> in_rect ?rect p" for p
    proof -
      have "bitmap c1 p = bitmap ctx p" using f1 that by blast
      then show ?thesis by (simp add: drawText_frame [OF nn that])
    qed
    ultimately show ?thesis by blast
  qed
qed

theorem render_clip_containment_witness:
  "\<not> in_rect (toIntRect \<lparr> rect_x = 2.5, rect_y = 3, rect_width = 10, rect_height = 8 \<rparr> 20 20) (15, 3)
   \<and> (\<exists>c. renderTextOverlay emHost (gradientCanvas 20 20)
             (sampleOverlay \<lparr> rect_x = 2.5, rect_y = 3, rect_width = 10, rect_height = 8 \<rparr> ''Hi'' 6) = Inr c
          \<and> bitmap c (15, 3) = \<lparr> px_r = 15, px_g = 3, px_b = 7, px_a = 255 \<rparr>)"
proof -
  let ?R = "\<lparr> rect_x = 2.5, rect_y = 3, rect_width = 10, rect_height = 8 \<rparr>"
  have t: "toIntRect ?R 20 20 = \<lparr> ir_x = 2, ir_y = 3, ir_width = 11, ir_height = 8 \<rparr>"
    by (simp add: toIntRect_def clamp_def Let_def)
  have n: "\<not> in_rect (toIntRect ?R 20 20) (15, 3)"
    unfolding t by (simp add: in_rect_def)
  have dims: "canvas_width (gradientCanvas 20 20) = 20" "canvas_height (gradientCanvas 20 20) = 20"
    "ov_rect (sampleOverlay ?R ''Hi'' 6) = ?R"
    by (simp_all add: gradientCanvas_def sampleOverlay_def)
  from render_clip_containment [of emHost "gradientCanvas 20 20" "sampleOverlay ?R ''Hi'' 6"]
  obtain c where c: "renderTextOverlay emHost (gradientCanvas 20 20) (sampleOverlay ?R ''Hi'' 6) = Inr c"
    and f: "\<forall>p. \<not> in_rect (toIntRect ?R 20 20) p \<longrightarrow> bitmap c p = bitmap (gradientCanvas 20 20) p"
    unfolding dims by blast
  from f n have "bitmap c (15, 3) = bitmap (gradientCanvas 20 20) (15, 3)" by blast
  then have "bitmap c (15, 3) = \<lparr> px_r = 15, px_g = 3, px_b = 7, px_a = 255 \<rparr>"
    by (simp add: gradientCanvas_def)
  with c n show ?thesis by blast
qed

section \<open>The floor of the autofit loop\<close>

lemma nw500: "normalizeWeight (WNumber 500) = 500"
  by (simp add: normalizeWeight_number Math_round_def clamp_def)

lemma fit_WW:
  "fitLoop probeHost ''WW'' \<lparr> ir_x = 0, ir_y = 0, ir_width = 10, ir_height = 10 \<rparr> 500 ''Arial'' 0 1
     (gradientCanvas 100 100, 7, [], 0)
   = (setFont (gradientCanvas 100 100) 500 6 ''Arial'', 5.5, [''W'', ''W''], 6)"
  by (simp add: fitLoop.simps minFontSize_def Let_def setFont_def wrapText_def wrapLineByChars_def wrapStep_def
      measureLineWidth_def measureText_def probeHost_def gradientCanvas_def newline_def)

lemma upt2: "[0..<2] = [0, Suc 0]"
  by (simp add: upt_rec numeral_2_eq_2)

lemma fitLoop_lower_bound:
  "minFontSize - 0.5 \<le> fst (snd st) \<Longrightarrow>
   minFontSize - 0.5 \<le> fst (snd (fitLoop host txt rect wt fam s lh st))"
proof (induction host "txt" rect wt fam s lh st rule: fitLoop.induct)
  case (1 host tx rect wt fam s lh ctx fsize lines lhp)
  show ?case
  proof (cases "minFontSize \<le> fsize")
    case False
    with "1.prems" show ?thesis by (subst fitLoop.simps) simp
  next
    case True
    then have "minFontSize - 0.5 \<le> fsize - 0.5" by simp
    with True "1.IH" [OF True refl refl refl refl refl] show ?thesis
      by (subst fitLoop.simps) (auto simp: Let_def)
  qed
qed

text \<open>
  C1. The autofit loop always terminates (\<open>fitLoop\<close> is a total function, its measure is
  twice the font size, rounded down), but a text that fits at no size is not painted at
  size 6: the loop leaves with the size below \<open>minFontSize\<close>, and that size is the one
  set for painting.  On a 10 by 10 rectangle with the text \<open>WW\<close> at size 7 on a
  monospaced host, the loop ends at 5.5 with the lines wrapped at 6, the font of the
  context is 5.5px, and the rasteriser is handed 5.5 (the probe pixel holds 11).
\<close>

theorem autofit_paints_below_floor:
  "fst (snd (fitLoop probeHost ''WW'' \<lparr> ir_x = 0, ir_y = 0, ir_width = 10, ir_height = 10 \<rparr> 500 ''Arial'' 0 1
              (gradientCanvas 100 100, 7, [], 0))) = 5.5
   \<and> font (drawText probeHost (gradientCanvas 100 100)
        (sampleOverlay \<lparr> rect_x = 0, rect_y = 0, rect_width = 10, rect_height = 10 \<rparr> ''WW'' 7)
        \<lparr> ir_x = 0, ir_y = 0, ir_width = 10, ir_height = 10 \<rparr>)
      = \<lparr> font_weight = 500, font_size = 5.5, font_family = ''Arial'' \<rparr>
   \<and> px_r (bitmap (drawText probeHost (gradientCanvas 100 100)
        (sampleOverlay \<lparr> rect_x = 0, rect_y = 0, rect_width = 10, rect_height = 10 \<rparr> ''WW'' 7)
        \<lparr> ir_x = 0, ir_y = 0, ir_width = 10, ir_height = 10 \<rparr>) (0, 0)) = 11
   \<and> minFontSize = 6"
proof -
  let ?r = "\<lparr> ir_x = 0, ir_y = 0, ir_width = 10, ir_height = 10 \<rparr>"
  let ?ov = "sampleOverlay \<lparr> rect_x = 0, rect_y = 0, rect_width = 10, rect_height = 10 \<rparr> ''WW'' 7"
  have col: "normalizeHexColor ''#102030'' ''#000000'' = ''#102030''"
    by (simp add: normalizeHexColor_id hex6_def isHexDigit_def)
  have pc: "parseColor ''#102030'' = Some \<lparr> px_r = 16, px_g = 32, px_b = 48, px_a = 255 \<rparr>"
    by (simp add: parseColor_def hex6_def isHexDigit_def hexByte_def digitValue_def isDigit_def)
  have d: "drawText probeHost (gradientCanvas 100 100) ?ov ?r
        = ctx_restore (drawLines probeHost
            (ctx_clip (ctx_rect (beginPath (ctx_save
               ((setFont (gradientCanvas 100 100) 500 5.5 ''Arial'')
                  \<lparr> fillStyle := \<lparr> px_r = 16, px_g = 32, px_b = 48, px_a = 255 \<rparr>,
                    textBaseline := ''top'', textAlign := ''left'' \<rparr>))) 0 0 10 10))
            ?r Left 0 0 5.5 [''W'', ''W''])"
    by (simp add: drawText_def sampleOverlay_def Let_def clamp_def normalizeLetterSpacing_def
        normalizeLineHeight_def nw500 fit_WW col set_fillStyle_def pc setFont_def)
  have f: "font (drawText probeHost (gradientCanvas 100 100) ?ov ?r)
        = \<lparr> font_weight = 500, font_size = 5.5, font_family = ''Arial'' \<rparr>"
    unfolding d
    by (simp add: drawLines_def upt2 drawLineWithSpacing_def fillText_def ctx_restore_def ctx_clip_def
        ctx_rect_def beginPath_def ctx_save_def setFont_def DrawState.truncate_def measureLineWidth_def
        measureText_def)
  have p: "px_r (bitmap (drawText probeHost (gradientCanvas 100 100) ?ov ?r) (0, 0)) = 11"
    unfolding d
    by (simp add: drawLines_def upt2 drawLineWithSpacing_def fillText_def ctx_restore_def ctx_clip_def
        ctx_rect_def beginPath_def ctx_save_def setFont_def DrawState.truncate_def measureLineWidth_def
        measureText_def probeHost_def gradientCanvas_def in_canvas_def in_rect_def)
  show ?thesis
    using f p by (simp add: fit_WW minFontSize_def)
qed

section \<open>Rectangles outside the canvas\<close>

lemma fit_Hi:
  "fitLoop emHost ''Hi'' \<lparr> ir_x = 99, ir_y = 0, ir_width = 1, ir_height = 50 \<rparr> 500 ''Arial'' 0 1
     (c, 6, [], 0)
   = (setFont c 500 6 ''Arial'', 5.5, [''Hi''], 6)"
  by (simp add: fitLoop.simps minFontSize_def Let_def setFont_def wrapText_def wrapLineByChars_def
      measureLineWidth_def measureText_def emHost_def newline_def)

lemma clamped_extent_zero:
  "c \<le> 0 \<Longrightarrow> max 0 (max 0 (min W c) - max 0 (min M f)) = (0::int)"
  by (simp add: max_def min_def)

lemma toIntRect_left_or_above:
  assumes "rect_x rect + rect_width rect \<le> 0 \<or> rect_y rect + rect_height rect \<le> 0"
  shows "ir_width (toIntRect rect W H) = 0 \<or> ir_height (toIntRect rect W H) = 0"
proof -
  have ce: "\<lceil>v\<rceil> \<le> 0" if "v \<le> 0" for v :: real
    using that by (simp add: ceiling_le_iff)
  show ?thesis
    using assms
  proof
    assume "rect_x rect + rect_width rect \<le> 0"
    then have "ir_width (toIntRect rect W H) = 0"
      by (simp add: toIntRect_def clamp_def Let_def clamped_extent_zero [OF ce])
    then show ?thesis by simp
  next
    assume "rect_y rect + rect_height rect \<le> 0"
    then have "ir_height (toIntRect rect W H) = 0"
      by (simp add: toIntRect_def clamp_def Let_def clamped_extent_zero [OF ce])
    then show ?thesis by simp
  qed
qed

lemma toIntRect_right_or_below:
  assumes "1 \<le> W" and "1 \<le> H"
  shows "real_of_int W \<le> rect_x rect \<Longrightarrow> 0 \<le> rect_width rect \<Longrightarrow>
           ir_x (toIntRect rect W H) = W - 1 \<and> ir_width (toIntRect rect W H) = 1"
    and "real_of_int H \<le> rect_y rect \<Longrightarrow> 0 \<le> rect_height rect \<Longrightarrow>
           ir_y (toIntRect rect W H) = H - 1 \<and> ir_height (toIntRect rect W H) = 1"
proof -
  have fl: "W \<le> \<lfloor>v\<rfloor>" if "real_of_int W \<le> v" for v W
    using that by (simp add: le_floor_iff)
  have ce: "W \<le> \<lceil>v + d\<rceil>" if "real_of_int W \<le> v" and "0 \<le> d" for v d :: real and W
  proof -
    have "real_of_int W \<le> v + d" using that by simp
    then show ?thesis by (simp add: le_ceiling_iff)
  qed
  show "real_of_int W \<le> rect_x rect \<Longrightarrow> 0 \<le> rect_width rect \<Longrightarrow>
           ir_x (toIntRect rect W H) = W - 1 \<and> ir_width (toIntRect rect W H) = 1"
    using assms fl [of W "rect_x rect"] ce [of W "rect_x rect" "rect_width rect"]
    by (simp add: toIntRect_def clamp_def Let_def max_def min_def)
  show "real_of_int H \<le> rect_y rect \<Longrightarrow> 0 \<le> rect_height rect \<Longrightarrow>
           ir_y (toIntRect rect W H) = H - 1 \<and> ir_height (toIntRect rect W H) = 1"
    using assms fl [of H "rect_y rect"] ce [of H "rect_y rect" "rect_height rect"]
    by (simp add: toIntRect_def clamp_def Let_def max_def min_def)
qed

text \<open>
  C2. A rectangle entirely to the left of or above the canvas resolves to width 0 or
  height 0 (lemma \<open>toIntRect_left_or_above\<close>), but one entirely to the right or below
  resolves to a strip one pixel wide or high at the last column or row (lemma
  \<open>toIntRect_right_or_below\<close>), which \<open>renderTextOverlay\<close> paints.  On a 100 by 100
  canvas the rectangle at \<open>x = 150\<close> of size 50 by 50 resolves to column 99, rows 0 to 49,
  and the pixels of that column are overwritten.
\<close>

theorem offcanvas_rect_is_painted:
  "toIntRect \<lparr> rect_x = 150, rect_y = 0, rect_width = 50, rect_height = 50 \<rparr> 100 100
     = \<lparr> ir_x = 99, ir_y = 0, ir_width = 1, ir_height = 50 \<rparr>
   \<and> (\<exists>c. renderTextOverlay emHost (gradientCanvas 100 100)
              (sampleOverlay \<lparr> rect_x = 150, rect_y = 0, rect_width = 50, rect_height = 50 \<rparr> ''Hi'' 6) = Inr c
          \<and> bitmap (gradientCanvas 100 100) (99, 0) = \<lparr> px_r = 99, px_g = 0, px_b = 7, px_a = 255 \<rparr>
          \<and> bitmap c (99, 0) = \<lparr> px_r = 16, px_g = 32, px_b = 48, px_a = 255 \<rparr>
          \<and> bitmap c (99, 49) = \<lparr> px_r = 16, px_g = 32, px_b = 48, px_a = 255 \<rparr>)"
proof -
  let ?R = "\<lparr> rect_x = 150, rect_y = 0, rect_width = 50, rect_height = 50 \<rparr>"
  let ?r = "\<lparr> ir_x = 99, ir_y = 0, ir_width = 1, ir_height = 50 \<rparr>"
  let ?ov = "sampleOverlay ?R ''Hi'' 6"
  let ?c0 = "gradientCanvas 100 100"
  have t: "toIntRect ?R 100 100 = ?r"
    by (simp add: toIntRect_def clamp_def Let_def)
  have white: "normalizeHexColor ''#ffffff'' ''#ffffff'' = ''#ffffff''"
    by (simp add: normalizeHexColor_id hex6_white)
  have pw: "parseColor ''#ffffff'' = Some \<lparr> px_r = 255, px_g = 255, px_b = 255, px_a = 255 \<rparr>"
    by (simp add: parseColor_def hex6_def isHexDigit_def hexByte_def digitValue_def isDigit_def)
  define c1 where "c1 = fillRect (?c0 \<lparr> fillStyle := \<lparr> px_r = 255, px_g = 255, px_b = 255, px_a = 255 \<rparr> \<rparr>) 99 0 1 50"
  have ab: "applyBackground ?c0 ?ov ?r = Inr c1"
    by (simp add: applyBackground_def sampleOverlay_def Let_def white set_fillStyle_def pw c1_def)
  have col: "normalizeHexColor ''#102030'' ''#000000'' = ''#102030''"
    by (simp add: normalizeHexColor_id hex6_def isHexDigit_def)
  have pc: "parseColor ''#102030'' = Some \<lparr> px_r = 16, px_g = 32, px_b = 48, px_a = 255 \<rparr>"
    by (simp add: parseColor_def hex6_def isHexDigit_def hexByte_def digitValue_def isDigit_def)
  have d: "drawText emHost c1 ?ov ?r
        = ctx_restore (drawLines emHost
            (ctx_clip (ctx_rect (beginPath (ctx_save
               ((setFont c1 500 5.5 ''Arial'')
                  \<lparr> fillStyle := \<lparr> px_r = 16, px_g = 32, px_b = 48, px_a = 255 \<rparr>,
                    textBaseline := ''top'', textAlign := ''left'' \<rparr>))) 99 0 1 50))
            ?r Left 0 0 5.5 [''Hi''])"
    by (simp add: drawText_def sampleOverlay_def Let_def clamp_def normalizeLetterSpacing_def
        normalizeLineHeight_def nw500 fit_Hi col set_fillStyle_def pc setFont_def)
  have cw: "canvas_width c1 = 100" "canvas_height c1 = 100" "clipRegion c1 = (\<lambda>p. True)"
    by (simp_all add: c1_def fillRect_def gradientCanvas_def)
  have p: "bitmap (drawText emHost c1 ?ov ?r) (99, j) = \<lparr> px_r = 16, px_g = 32, px_b = 48, px_a = 255 \<rparr>"
    if "0 \<le> j" and "j < 50" for j
    unfolding d using that
    by (simp add: drawLines_def drawLineWithSpacing_def fillText_def ctx_restore_def ctx_clip_def
        ctx_rect_def beginPath_def ctx_save_def setFont_def DrawState.truncate_def measureLineWidth_def
        measureText_def emHost_def in_canvas_def in_rect_def cw)
  have r: "renderTextOverlay emHost ?c0 ?ov = Inr (drawText emHost c1 ?ov ?r)"
    by (simp add: renderTextOverlay_def Let_def sampleOverlay_def gradientCanvas_def t
        ab [unfolded sampleOverlay_def gradientCanvas_def] bind_err_def)
  have o: "bitmap ?c0 (99, 0) = \<lparr> px_r = 99, px_g = 0, px_b = 7, px_a = 255 \<rparr>"
    by (simp add: gradientCanvas_def)
  show ?thesis
    using t r o p [of 0] p [of 49] by simp
qed

end
